theory Spec2Isabelle
  imports Complex_Main "HOL-Library.Multiset"
begin

section \<open>Career-Guide-Logic: the scoring engine\<close>

text \<open>
  The development embeds the scoring core of the two variants of the program:
  \<^verbatim>\<open>CJL-PRO/engine.py\<close> (with \<^verbatim>\<open>ranked_nodes\<close> of \<^verbatim>\<open>CJL-PRO/run.py\<close>) and
  \<^verbatim>\<open>CJL/scoring.py\<close>.

  Conventions of the embedding.
  \<^item> A Python \<^verbatim>\<open>dict\<close> with string keys is an association list in insertion order;
    a well-formed dict has distinct keys (\<open>distinct (map fst d)\<close>).
  \<^item> A Python \<^verbatim>\<open>float\<close> is a real number. The arithmetic \<^verbatim>\<open>+ * /\<close> is exact: the rounding
    error of binary64 is not part of the model. What \<^verbatim>\<open>math.exp\<close> does at the limits of
    binary64 is part of it: above the overflow threshold it raises \<^verbatim>\<open>OverflowError\<close>,
    below the underflow threshold it returns \<^verbatim>\<open>0.0\<close>.
  \<^item> A Python \<^verbatim>\<open>int\<close> is an \<open>int\<close>; a question count converts to a float exactly.
  \<^item> A raised exception is the left summand of a sum type.
\<close>

subsection \<open>Dictionaries\<close>

type_synonym 'v dict = "(string \<times> 'v) list"

text \<open>\<^verbatim>\<open>d.get(k, default)\<close>\<close>

definition dict_get :: "'v dict \<Rightarrow> string \<Rightarrow> 'v \<Rightarrow> 'v" where
  "dict_get d k dflt = (case map_of d k of None \<Rightarrow> dflt | Some v \<Rightarrow> v)"

text \<open>\<^verbatim>\<open>k in d\<close>\<close>

definition dict_in :: "string \<Rightarrow> 'v dict \<Rightarrow> bool" where
  "dict_in k d = (k \<in> set (map fst d))"

text \<open>\<^verbatim>\<open>d[k] += x\<close> for a key that is present: the entry keeps its place.\<close>

definition dict_add :: "real dict \<Rightarrow> string \<Rightarrow> real \<Rightarrow> real dict" where
  "dict_add d k x = map (\<lambda>(k', v). if k' = k then (k', v + x) else (k', v)) d"

subsection \<open>Trait accumulator (CJL-PRO/engine.py)\<close>

definition TRAIT_KEYS :: "string list" where
  "TRAIT_KEYS = [''apt'', ''O'', ''C'', ''E'', ''A'', ''stab'', ''R'', ''I'', ''Art'']"

definition empty_traits :: "real dict" where
  "empty_traits = map (\<lambda>k. (k, 0)) TRAIT_KEYS"

definition LIKERT_MAP :: "int dict" where
  "LIKERT_MAP = [(''A'', 2), (''B'', 1), (''C'', 0), (''D'', -1), (''E'', -2)]"

text \<open>\<^verbatim>\<open>str.upper()\<close> on the ASCII letters; the keys of \<^verbatim>\<open>LIKERT_MAP\<close> are ASCII.\<close>

definition upper_char :: "char \<Rightarrow> char" where
  "upper_char c =
     (let n = (of_char c :: nat) in if 97 \<le> n \<and> n \<le> 122 then char_of (n - 32) else c)"

definition upper :: "string \<Rightarrow> string" where
  "upper s = map upper_char s"

text \<open>
  A question is a dict with an \<^verbatim>\<open>"id"\<close> and, optionally, a \<^verbatim>\<open>"traits"\<close> dict
  (the code reads it with \<^verbatim>\<open>question.get("traits", {})\<close>).
\<close>

record question =
  qid :: string
  qtraits :: "real dict option"

definition question_traits :: "question \<Rightarrow> real dict" where
  "question_traits q = (case qtraits q of None \<Rightarrow> [] | Some ts \<Rightarrow> ts)"

definition answer_delta :: "string \<Rightarrow> int" where
  "answer_delta answer = dict_get LIKERT_MAP (upper answer) 0"

text \<open>One turn of the loop \<^verbatim>\<open>for trait, weight in ...: if trait in updated: updated[trait] += delta * weight\<close>.\<close>

definition add_weighted :: "int \<Rightarrow> string \<times> real \<Rightarrow> real dict \<Rightarrow> real dict" where
  "add_weighted delta tw updated =
     (case tw of (trait, weight) \<Rightarrow>
        if dict_in trait updated then dict_add updated trait (real_of_int delta * weight)
        else updated)"

definition apply_answer :: "real dict \<Rightarrow> question \<Rightarrow> string \<Rightarrow> real dict" where
  "apply_answer traits question answer =
     (let delta = answer_delta answer;
          updated = traits
      in fold (add_weighted delta) (question_traits question) updated)"

subsection \<open>Exceptions\<close>

datatype py_error = OverflowError | ZeroDivisionError | KeyError

text \<open>Sequencing: an exception of the first computation skips the second.\<close>

definition bind_err :: "py_error + 'a \<Rightarrow> ('a \<Rightarrow> py_error + 'b) \<Rightarrow> py_error + 'b" where
  "bind_err m f = (case m of Inl e \<Rightarrow> Inl e | Inr x \<Rightarrow> f x)"

text \<open>Float division \<^verbatim>\<open>a / b\<close> raises \<^verbatim>\<open>ZeroDivisionError\<close> on a zero divisor.\<close>

definition py_div :: "real \<Rightarrow> real \<Rightarrow> py_error + real" where
  "py_div a b = (if b = 0 then Inl ZeroDivisionError else Inr (a / b))"

text \<open>
  A dict comprehension \<^verbatim>\<open>{k: f(k, v) for k, v in d.items()}\<close>, and equally a loop that
  stores \<^verbatim>\<open>out[k] = f(k, v)\<close> for each item of a dict: the items are visited in order and
  the first exception ends the traversal.
\<close>

primrec dict_comp :: "(string \<times> 'a \<Rightarrow> py_error + 'b) \<Rightarrow> 'a dict \<Rightarrow> py_error + 'b dict" where
  "dict_comp f [] = Inr []"
| "dict_comp f (kv # rest) =
     bind_err (f kv) (\<lambda>y. bind_err (dict_comp f rest) (\<lambda>ys. Inr ((fst kv, y) # ys)))"

subsection \<open>Normaliser (CJL-PRO/engine.py)\<close>

definition normalise_traits :: "real dict \<Rightarrow> int \<Rightarrow> real \<Rightarrow> py_error + real dict" where
  "normalise_traits raw n_questions max_weight =
     (let bound = max (real_of_int n_questions * max_weight * 2) 1
      in dict_comp (\<lambda>(k, v). bind_err (py_div (v + bound) (2 * bound))
                                (\<lambda>r. Inr (max 0 (min 1 r)))) raw)"

text \<open>The clamp of the specification, \<open>clamp(x, 0, 1)\<close>.\<close>

definition clamp01 :: "real \<Rightarrow> real" where
  "clamp01 x = (if x < 0 then 0 else if 1 < x then 1 else x)"

text \<open>
  The answers of a session, fed to the accumulator one after the other
  (\<^verbatim>\<open>trait_acc = apply_answer(trait_acc, q, ans)\<close> in \<^verbatim>\<open>conduct_stage\<close>).
\<close>

definition apply_answers :: "real dict \<Rightarrow> (question \<times> string) list \<Rightarrow> real dict" where
  "apply_answers traits qas = fold (\<lambda>(q, ans) acc. apply_answer acc q ans) qas traits"

text \<open>The trait vectors a session can hold.\<close>

inductive reachable :: "real dict \<Rightarrow> bool" where
  start: "reachable empty_traits"
| answered: "reachable traits \<Longrightarrow> reachable (apply_answer traits q answer)"
| normalised: "reachable traits \<Longrightarrow> normalise_traits traits n mw = Inr normd \<Longrightarrow> reachable normd"

subsection \<open>The accumulator on a heap of dict objects\<close>

text \<open>
  Python passes dicts by reference. To state that \<^verbatim>\<open>apply_answer\<close> leaves the caller's
  dict alone, the dict objects live in a heap: a list of dicts, the address of an object
  being its index. \<^verbatim>\<open>dict(traits)\<close> allocates a copy at the next free address, and every
  \<^verbatim>\<open>updated[trait] += ...\<close> writes to the object at the address \<^verbatim>\<open>updated\<close>.
\<close>

type_synonym heap = "real dict list"

definition heap_apply_answer :: "heap \<Rightarrow> nat \<Rightarrow> question \<Rightarrow> string \<Rightarrow> nat \<times> heap" where
  "heap_apply_answer h traits question answer =
     (let delta = answer_delta answer;
          updated = length h;
          h1 = h @ [h ! traits]
      in (updated,
          fold (\<lambda>tw hp. hp[updated := add_weighted delta tw (hp ! updated)])
               (question_traits question) h1))"

subsection \<open>\<^verbatim>\<open>math.exp\<close> and \<^verbatim>\<open>round\<close>\<close>

text \<open>
  \<^verbatim>\<open>math.exp(x)\<close> raises \<^verbatim>\<open>OverflowError\<close> when the result exceeds the largest binary64
  number, that is for \<open>x\<close> above \<open>ln (2 ^ 1024)\<close>, and returns \<^verbatim>\<open>0.0\<close> when the result is
  below half the smallest positive binary64 number, that is for \<open>x\<close> below \<open>ln (2 ^ -1075)\<close>.
\<close>

definition EXP_OVERFLOW :: real where
  "EXP_OVERFLOW = 709.782712893384"

definition EXP_UNDERFLOW :: real where
  "EXP_UNDERFLOW = - 745.1332191019412"

definition math_exp :: "real \<Rightarrow> py_error + real" where
  "math_exp x =
     (if EXP_OVERFLOW < x then Inl OverflowError
      else if x < EXP_UNDERFLOW then Inr 0
      else Inr (exp x))"

text \<open>\<^verbatim>\<open>round(x, 2)\<close>: to the nearest hundredth, a tie to the even neighbour.\<close>

definition round_half_even :: "real \<Rightarrow> int" where
  "round_half_even y =
     (let f = \<lfloor>y\<rfloor>; d = y - of_int f
      in if d < 1 / 2 then f else if 1 / 2 < d then f + 1
         else if even f then f else f + 1)"

definition py_round2 :: "real \<Rightarrow> real" where
  "py_round2 x = of_int (round_half_even (x * 100)) / 100"

text \<open>\<^verbatim>\<open>sum(...) or 1.0\<close>\<close>

definition or_one :: "real \<Rightarrow> real" where
  "or_one s = (if s = 0 then 1 else s)"

text \<open>\<^verbatim>\<open>round(v / total * 100, 2)\<close>\<close>

definition percentage :: "real \<Rightarrow> real \<Rightarrow> py_error + real" where
  "percentage tot v = bind_err (py_div v tot) (\<lambda>q. Inr (py_round2 (q * 100)))"

subsection \<open>Candidate scorer and distribution builder (CJL/scoring.py)\<close>

definition scoring_sigmoid :: "real \<Rightarrow> py_error + real" where
  "scoring_sigmoid x = bind_err (math_exp (- 12 * (x - 0.5))) (\<lambda>e. py_div 1 (1 + e))"

definition scoring_softmax :: "real dict \<Rightarrow> py_error + real dict" where
  "scoring_softmax vals =
     bind_err (dict_comp (\<lambda>(k, v). math_exp (v * 5)) vals) (\<lambda>exp_vals.
       let tot = or_one (sum_list (map snd exp_vals))
       in dict_comp (\<lambda>(k, v). percentage tot v) exp_vals)"

subsection \<open>Candidate scorer and distribution builder (CJL-PRO/engine.py)\<close>

text \<open>
  \<^verbatim>\<open>try: return 1.0 / (1.0 + math.exp(-sharpness * (x - 0.5)))\<close>
  \<^verbatim>\<open>except OverflowError: return 0.0 if x < 0.5 else 1.0\<close>
\<close>

definition engine_sigmoid :: "real \<Rightarrow> real \<Rightarrow> py_error + real" where
  "engine_sigmoid x sharpness =
     (case bind_err (math_exp (- sharpness * (x - 0.5))) (\<lambda>e. py_div 1 (1 + e)) of
        Inl OverflowError \<Rightarrow> Inr (if x < 0.5 then 0 else 1)
      | Inl e \<Rightarrow> Inl e
      | Inr y \<Rightarrow> Inr y)"

text \<open>A value of \<^verbatim>\<open>exp_vals\<close>: a finite float or \<^verbatim>\<open>float("inf")\<close>.\<close>

datatype xfloat = Fin real | PosInf

text \<open>
  \<^verbatim>\<open>try: exp_vals[k] = math.exp(v * temperature)\<close>
  \<^verbatim>\<open>except OverflowError: exp_vals[k] = float("inf")\<close>
\<close>

definition exp_or_inf :: "real \<Rightarrow> py_error + xfloat" where
  "exp_or_inf x =
     (case math_exp x of
        Inl OverflowError \<Rightarrow> Inr PosInf
      | Inl e \<Rightarrow> Inl e
      | Inr y \<Rightarrow> Inr (Fin y))"

text \<open>
  What \<^verbatim>\<open>math.exp\<close> gives when it does not raise, and what the loop of \<^verbatim>\<open>_softmax\<close>
  stores in \<^verbatim>\<open>exp_vals\<close>; they state the results below.
\<close>

definition exp_fin :: "real \<Rightarrow> real" where
  "exp_fin x = (if x < EXP_UNDERFLOW then 0 else exp x)"

definition exp_val :: "real \<Rightarrow> xfloat" where
  "exp_val x = (if EXP_OVERFLOW < x then PosInf else Fin (exp_fin x))"

text \<open>The items of \<^verbatim>\<open>exp_vals\<close> whose value is finite.\<close>

fun finite_items :: "xfloat dict \<Rightarrow> real dict" where
  "finite_items [] = []"
| "finite_items ((k, Fin e) # rest) = (k, e) # finite_items rest"
| "finite_items ((k, PosInf) # rest) = finite_items rest"

text \<open>
  \<^verbatim>\<open>total\<close> is read on the last line only, which is reached when \<^verbatim>\<open>inf_keys\<close> is empty;
  every item of \<^verbatim>\<open>exp_vals\<close> is finite there, so the sum and the last comprehension range
  over \<open>finite_items exp_vals\<close>.
\<close>

definition engine_softmax :: "real dict \<Rightarrow> real \<Rightarrow> py_error + real dict" where
  "engine_softmax scores temperature =
     bind_err (dict_comp (\<lambda>(k, v). exp_or_inf (v * temperature)) scores) (\<lambda>exp_vals.
       let inf_keys = map fst (filter (\<lambda>(k, v). v = PosInf) exp_vals)
       in if inf_keys \<noteq> [] then
            bind_err (py_div 100 (real (length inf_keys))) (\<lambda>share.
              Inr (map (\<lambda>(k, v). (k, if k \<in> set inf_keys then share else 0)) scores))
          else
            (let tot = or_one (sum_list (map snd (finite_items exp_vals)))
             in dict_comp (\<lambda>(k, v). percentage tot v) (finite_items exp_vals)))"

text \<open>
  A taxonomy node; \<^verbatim>\<open>score_nodes\<close> reads \<^verbatim>\<open>cfg.get("trait_weights", {})\<close> and nothing else.
\<close>

record node =
  description :: string
  trait_weights :: "real dict option"

definition node_weights :: "node \<Rightarrow> real dict" where
  "node_weights cfg = (case trait_weights cfg of None \<Rightarrow> [] | Some ws \<Rightarrow> ws)"

text \<open>\<^verbatim>\<open>sum(weights.get(t, 0.0) * norm_traits.get(t, 0.5) for t in weights)\<close>\<close>

definition dot_product :: "real dict \<Rightarrow> real dict \<Rightarrow> real" where
  "dot_product weights norm_traits =
     sum_list (map (\<lambda>t. dict_get weights t 0 * dict_get norm_traits t 0.5) (map fst weights))"

definition score_nodes :: "node dict \<Rightarrow> real dict \<Rightarrow> py_error + real dict" where
  "score_nodes nodes norm_traits =
     bind_err (dict_comp (\<lambda>(name, cfg). engine_sigmoid (dot_product (node_weights cfg) norm_traits) 10)
                 nodes)
       (\<lambda>activations. engine_softmax activations 4)"

subsection \<open>Cluster scoring (CJL/scoring.py)\<close>

text \<open>
  \<^verbatim>\<open>CAREER_CLUSTERS\<close>, each cluster with its \<^verbatim>\<open>"weights"\<close>; the \<^verbatim>\<open>"roles"\<close> are not read by
  the scoring.
\<close>

definition CAREER_CLUSTERS :: "real dict dict" where
  "CAREER_CLUSTERS =
    [
     (''STEM / Technology'',
       [(''apt'', 0.35), (''I'', 0.3), (''C'', 0.15), (''O'', 0.1), (''E'', 0.02), (''A'', 0.02), (''stab'', 0.03), (''R'', 0.03)]),
     (''Engineering / Trades'',
       [(''apt'', 0.2), (''R'', 0.35), (''I'', 0.2), (''C'', 0.15), (''O'', 0.05), (''E'', 0.02), (''A'', 0.01), (''stab'', 0.02)]),
     (''Science / Research'',
       [(''apt'', 0.25), (''I'', 0.35), (''O'', 0.2), (''C'', 0.12), (''E'', 0.02), (''A'', 0.03), (''stab'', 0.02), (''R'', 0.01)]),
     (''Creative Arts & Design'',
       [(''Art'', 0.4), (''O'', 0.25), (''E'', 0.1), (''C'', 0.1), (''apt'', 0.05), (''A'', 0.05), (''stab'', 0.03), (''I'', 0.02)]),
     (''Business / Management'',
       [(''apt'', 0.2), (''C'', 0.25), (''E'', 0.2), (''A'', 0.1), (''O'', 0.1), (''stab'', 0.1), (''I'', 0.03), (''R'', 0.02)]),
     (''Healthcare / Medicine'',
       [(''apt'', 0.2), (''I'', 0.22), (''A'', 0.22), (''C'', 0.18), (''stab'', 0.12), (''O'', 0.03), (''E'', 0.02), (''R'', 0.01)]),
     (''Social Work / Counseling'',
       [(''A'', 0.38), (''E'', 0.2), (''stab'', 0.15), (''O'', 0.12), (''C'', 0.08), (''apt'', 0.04), (''I'', 0.02), (''Art'', 0.01)]),
     (''Education / Academia'',
       [(''O'', 0.22), (''A'', 0.2), (''C'', 0.18), (''E'', 0.15), (''I'', 0.12), (''apt'', 0.08), (''stab'', 0.04), (''Art'', 0.01)]),
     (''Law / Policy'',
       [(''apt'', 0.25), (''E'', 0.2), (''C'', 0.18), (''O'', 0.15), (''A'', 0.1), (''I'', 0.07), (''stab'', 0.03), (''Art'', 0.02)]),
     (''Finance / Economics'',
       [(''apt'', 0.35), (''C'', 0.25), (''I'', 0.2), (''stab'', 0.1), (''O'', 0.05), (''E'', 0.02), (''A'', 0.02), (''R'', 0.01)]),
     (''Communication / Media'',
       [(''Art'', 0.25), (''E'', 0.25), (''O'', 0.2), (''A'', 0.12), (''C'', 0.08), (''stab'', 0.05), (''apt'', 0.03), (''I'', 0.02)]),
     (''Sports / Physical Education'',
       [(''R'', 0.3), (''E'', 0.25), (''stab'', 0.2), (''C'', 0.12), (''A'', 0.08), (''O'', 0.03), (''apt'', 0.01), (''I'', 0.01)]),
     (''Military / Law Enforcement'',
       [(''R'', 0.25), (''C'', 0.25), (''stab'', 0.25), (''E'', 0.1), (''A'', 0.08), (''apt'', 0.05), (''O'', 0.01), (''I'', 0.01)]),
     (''Hospitality / Tourism'',
       [(''E'', 0.35), (''A'', 0.3), (''O'', 0.15), (''C'', 0.1), (''stab'', 0.07), (''Art'', 0.02), (''apt'', 0.01)]),
     (''Environment / Agriculture'',
       [(''R'', 0.3), (''I'', 0.2), (''O'', 0.18), (''C'', 0.15), (''A'', 0.1), (''stab'', 0.04), (''apt'', 0.02), (''E'', 0.01)])]"

text \<open>
  \<^verbatim>\<open>dot = sum(w.get(t, 0) * trait_vec.get(t, 0.5) for t in w)\<close>,
  \<^verbatim>\<open>activations[cluster] = _sigmoid(dot)\<close>, \<^verbatim>\<open>return _softmax(activations)\<close>.
  \<^verbatim>\<open>score_assessment\<close> calls it with the vector of \<^verbatim>\<open>build_trait_vector\<close>, whose values
  \<^verbatim>\<open>normalise\<close> has clamped to the interval from 0 to 1.
\<close>

definition compute_cluster_scores :: "real dict \<Rightarrow> py_error + real dict" where
  "compute_cluster_scores trait_vec =
     bind_err (dict_comp (\<lambda>(cluster, w). scoring_sigmoid (dot_product w trait_vec)) CAREER_CLUSTERS)
       (\<lambda>activations. scoring_softmax activations)"

subsection \<open>Ranking (CJL-PRO/run.py)\<close>

text \<open>\<^verbatim>\<open>[(name, pct, taxonomy[name]) for name, pct in probs.items()]\<close>; a missing name raises.\<close>

primrec with_cfg :: "node dict \<Rightarrow> real dict \<Rightarrow> py_error + (string \<times> real \<times> node) list" where
  "with_cfg taxonomy [] = Inr []"
| "with_cfg taxonomy (np # rest) =
     (case map_of taxonomy (fst np) of
        None \<Rightarrow> Inl KeyError
      | Some cfg \<Rightarrow>
          bind_err (with_cfg taxonomy rest) (\<lambda>xs. Inr ((fst np, snd np, cfg) # xs)))"

text \<open>
  \<^verbatim>\<open>sorted(..., key=lambda x: x[1], reverse=True)\<close>: Python's sort is stable, also with
  \<^verbatim>\<open>reverse=True\<close>; that is the stable ascending sort on the negated key.
\<close>

definition ranked_nodes :: "real dict \<Rightarrow> node dict \<Rightarrow> py_error + (string \<times> real \<times> node) list" where
  "ranked_nodes probs taxonomy =
     bind_err (with_cfg taxonomy probs) (\<lambda>xs. Inr (sort_key (\<lambda>x. - fst (snd x)) xs))"

subsection \<open>Adaptive question selector (CJL-PRO/engine.py)\<close>

text \<open>
  The random generator is the sequence of its future raw draws; \<^verbatim>\<open>randbelow(n)\<close> reduces
  the next draw below \<open>n\<close>, so every outcome of the generator is the outcome of some sequence.
\<close>

type_synonym rng = "nat \<Rightarrow> nat"

definition randbelow :: "nat \<Rightarrow> rng \<Rightarrow> nat \<times> rng" where
  "randbelow n r = (r 0 mod n, \<lambda>i. r (Suc i))"

text \<open>
  \<^verbatim>\<open>random.shuffle(x)\<close>:
  \<^verbatim>\<open>for i in reversed(range(1, len(x))): j = randbelow(i + 1); x[i], x[j] = x[j], x[i]\<close>
\<close>

fun shuffle_from :: "nat \<Rightarrow> 'a list \<Rightarrow> rng \<Rightarrow> 'a list \<times> rng" where
  "shuffle_from 0 xs r = (xs, r)"
| "shuffle_from (Suc k) xs r =
     (case randbelow (Suc k + 1) r of
        (j, r') \<Rightarrow> shuffle_from k (xs[Suc k := xs ! j, j := xs ! Suc k]) r')"

definition shuffle :: "'a list \<Rightarrow> rng \<Rightarrow> 'a list \<times> rng" where
  "shuffle xs r = shuffle_from (length xs - 1) xs r"

text \<open>The slice \<^verbatim>\<open>xs[:n]\<close>; a negative \<open>n\<close> counts from the end.\<close>

definition slice_to :: "int \<Rightarrow> 'a list \<Rightarrow> 'a list" where
  "slice_to n xs = (if 0 \<le> n then take (nat n) xs else take (length xs - nat (- n)) xs)"

definition informativeness :: "real dict \<Rightarrow> question \<Rightarrow> real" where
  "informativeness norm_traits q =
     fold (\<lambda>(trait, w) score.
             let current = dict_get norm_traits trait 0.5;
                 uncertainty = 1 - \<bar>current - 0.5\<bar> * 2
             in score + uncertainty * w)
          (question_traits q) 0"

text \<open>
  \<^verbatim>\<open>norm_traits\<close> is \<^verbatim>\<open>None\<close> or a dict; \<^verbatim>\<open>if norm_traits:\<close> holds for a dict that is not empty.
  \<^verbatim>\<open>available.sort(key=informativeness, reverse=True)\<close> is the stable sort on the negated key.
\<close>

definition select_questions ::
  "question list \<Rightarrow> int \<Rightarrow> string set \<Rightarrow> real dict option \<Rightarrow> rng \<Rightarrow> question list \<times> rng" where
  "select_questions pool n used_ids norm_traits r =
     (let available = filter (\<lambda>q. qid q \<notin> used_ids) pool
      in case norm_traits of
           Some nt \<Rightarrow>
             if nt \<noteq> [] then
               (let sorted_av = sort_key (\<lambda>q. - informativeness nt q) available;
                    top = slice_to (min (2 * n) (int (length sorted_av))) sorted_av
                in case shuffle top r of (top', r') \<Rightarrow> (slice_to n top', r'))
             else (case shuffle available r of (av', r') \<Rightarrow> (slice_to n av', r'))
         | None \<Rightarrow> (case shuffle available r of (av', r') \<Rightarrow> (slice_to n av', r')))"

section \<open>Properties\<close>

subsection \<open>Exceptions and comprehensions\<close>

lemma dict_comp_total:
  "(\<And>kv. kv \<in> set d \<Longrightarrow> f kv = Inr (g kv)) \<Longrightarrow>
   dict_comp f d = Inr (map (\<lambda>kv. (fst kv, g kv)) d)"
  by (induction d) (simp_all add: bind_err_def)

lemma dict_comp_keys: "dict_comp f d = Inr out \<Longrightarrow> map fst out = map fst d"
  by (induction d arbitrary: out) (auto simp: bind_err_def split: sum.splits)

subsection \<open>Normaliser\<close>

lemma clamp01_max_min: "clamp01 x = max 0 (min 1 x)"
  by (simp add: clamp01_def max_def min_def)

lemma normalise_traits_total:
  "normalise_traits raw n mw =
     Inr (map (\<lambda>kv. (fst kv, max 0 (min 1 ((snd kv + max (real_of_int n * mw * 2) 1)
                                            / (2 * max (real_of_int n * mw * 2) 1))))) raw)"
  unfolding normalise_traits_def Let_def
  by (rule dict_comp_total) (simp add: py_div_def bind_err_def case_prod_beta)

lemma normalise_keys: "normalise_traits raw n mw = Inr normd \<Longrightarrow> map fst normd = map fst raw"
  unfolding normalise_traits_def Let_def by (rule dict_comp_keys)

text \<open>
  C4. For every raw trait mapping, every integer \<open>n_answered\<close> (0 included) and every
  \<open>max_abs_weight\<close>, \<open>normalise_traits\<close> returns (it raises nothing); it takes the bound
  \<open>max (n * w * 2) 1\<close> and maps each raw value \<open>v\<close> to \<open>clamp ((v + bound) / (2 * bound))\<close>,
  key by key; every value of the result lies in the closed interval from 0 to 1.
\<close>

theorem normalise_traits_clamped:
  "\<exists>normd. normalise_traits raw n mw = Inr normd
     \<and> normd = map (\<lambda>(k, v). (k, clamp01 ((v + max (real_of_int n * mw * 2) 1)
                                         / (2 * max (real_of_int n * mw * 2) 1)))) raw
     \<and> (\<forall>(k, v) \<in> set normd. 0 \<le> v \<and> v \<le> 1)"
  by (auto simp: normalise_traits_total clamp01_max_min case_prod_beta)

theorem normalise_traits_clamped_witness:
  "normalise_traits [(''apt'', 1000), (''O'', -7), (''C'', 1 / 2)] 0 2
     = Inr [(''apt'', 1), (''O'', 0), (''C'', 3 / 4)]"
  using normalise_traits_clamped [of "[(''apt'', 1000), (''O'', -7), (''C'', 1 / 2)]" 0 2]
  by (auto simp: clamp01_def)

text \<open>
  C7. An accumulator whose values are all zero, normalised with \<open>n_answered = 0\<close> and
  any \<open>max_abs_weight\<close>, has every trait at exactly one half: the bound is the floor 1,
  so no division by zero is raised.
\<close>

theorem normalise_zero_is_half:
  "(\<forall>(k, v) \<in> set raw. v = 0) \<Longrightarrow>
   normalise_traits raw 0 mw = Inr (map (\<lambda>(k, v). (k, 1 / 2)) raw)"
  by (auto simp: normalise_traits_total)

theorem normalise_zero_is_half_witness:
  "normalise_traits empty_traits 0 2 = Inr (map (\<lambda>k. (k, 1 / 2)) TRAIT_KEYS)"
proof -
  have z: "\<forall>(k, v) \<in> set empty_traits. v = 0"
    by (simp add: empty_traits_def TRAIT_KEYS_def)
  show ?thesis
    using normalise_zero_is_half [OF z, of 2]
    by (simp add: empty_traits_def comp_def)
qed

subsection \<open>Trait accumulator\<close>

lemma dict_add_keys: "map fst (dict_add d k x) = map fst d"
  by (induction d) (auto simp: dict_add_def)

lemma add_weighted_keys: "map fst (add_weighted delta tw d) = map fst d"
  by (cases tw) (simp add: add_weighted_def dict_add_keys)

lemma fold_add_weighted_keys: "map fst (fold (add_weighted delta) ws d) = map fst d"
  by (induction ws arbitrary: d) (simp_all add: add_weighted_keys)

lemma apply_answer_keys: "map fst (apply_answer traits q answer) = map fst traits"
  by (simp add: apply_answer_def Let_def fold_add_weighted_keys)

lemma map_of_dict_add:
  "map_of (dict_add d k x) t =
     (if t = k then map_option (\<lambda>v. v + x) (map_of d t) else map_of d t)"
  by (induction d) (auto simp: dict_add_def)

lemma map_of_add_weighted:
  "map_of (add_weighted delta (k, w) d) t =
     (if t = k then map_option (\<lambda>v. v + real_of_int delta * w) (map_of d t) else map_of d t)"
  by (auto simp: add_weighted_def map_of_dict_add dict_in_def map_of_eq_None_iff[symmetric])

lemma dict_get_notin: "k \<notin> fst ` set d \<Longrightarrow> dict_get d k dflt = dflt"
  by (simp add: dict_get_def map_of_eq_None_iff[symmetric])

text \<open>A trait the question declares, with weight \<open>w\<close>, gains \<open>delta * w\<close>; any other trait gains 0.\<close>

lemma map_of_fold_add_weighted:
  "distinct (map fst ws) \<Longrightarrow>
   map_of (fold (add_weighted delta) ws d) t =
     map_option (\<lambda>v. v + real_of_int delta * dict_get ws t 0) (map_of d t)"
proof (induction ws arbitrary: d)
  case Nil
  show ?case by (simp add: dict_get_def option.map_ident)
next
  case (Cons kw ws)
  obtain k w where kw: "kw = (k, w)" by (cases kw)
  from Cons.prems have d: "distinct (map fst ws)" and nk: "k \<notin> fst ` set ws"
    by (auto simp: kw)
  show ?case
  proof (cases "t = k")
    case True
    have "dict_get ws k 0 = 0" using nk by (rule dict_get_notin)
    then show ?thesis
      using Cons.IH [OF d] True
      by (cases "map_of d k") (simp_all add: kw map_of_add_weighted dict_get_def)
  next
    case False
    then show ?thesis
      using Cons.IH [OF d]
      by (simp add: kw map_of_add_weighted dict_get_def)
  qed
qed

lemma map_of_fold_add_weighted_other:
  "t \<notin> fst ` set ws \<Longrightarrow> map_of (fold (add_weighted delta) ws d) t = map_of d t"
proof (induction ws arbitrary: d)
  case Nil
  show ?case by simp
next
  case (Cons kw ws)
  obtain k w where kw: "kw = (k, w)" by (cases kw)
  from Cons.prems have "t \<noteq> k" and "t \<notin> fst ` set ws" by (auto simp: kw)
  then show ?case
    using Cons.IH [of "add_weighted delta (k, w) d"]
    by (simp add: kw map_of_add_weighted)
qed

lemma apply_answer_declared:
  assumes "distinct (map fst (question_traits q))" and "(t, w) \<in> set (question_traits q)"
  shows "map_of (apply_answer traits q answer) t
           = map_option (\<lambda>v. v + real_of_int (answer_delta answer) * w) (map_of traits t)"
proof -
  have "dict_get (question_traits q) t 0 = w"
    using assms by (simp add: dict_get_def)
  then show ?thesis
    using assms(1) by (simp add: apply_answer_def Let_def map_of_fold_add_weighted)
qed

lemma apply_answer_undeclared:
  "t \<notin> fst ` set (question_traits q) \<Longrightarrow>
   map_of (apply_answer traits q answer) t = map_of traits t"
  by (simp add: apply_answer_def Let_def map_of_fold_add_weighted_other)

lemma answer_delta_A: "answer_delta ''A'' = 2"
  by code_simp

lemma answer_delta_lower_a: "answer_delta ''a'' = 2"
  by code_simp

lemma answer_delta_E: "answer_delta ''E'' = - 2"
  by code_simp

lemma answer_delta_unknown: "answer_delta ''maybe'' = 0"
  by code_simp

subsection \<open>The accumulator does not write to its argument\<close>

text \<open>Every write of the loop goes to the object at \<open>u\<close>.\<close>

lemma heap_fold_frame:
  "u < length hp \<Longrightarrow>
   fold (\<lambda>tw hp. hp[u := add_weighted delta tw (hp ! u)]) ws hp
     = hp[u := fold (add_weighted delta) ws (hp ! u)]"
  by (induction ws arbitrary: hp) simp_all

lemma heap_apply_answer_eq:
  "heap_apply_answer h a q answer = (length h, h @ [apply_answer (h ! a) q answer])"
  by (simp add: heap_apply_answer_def Let_def heap_fold_frame apply_answer_def)

text \<open>
  C9. For every heap, every trait vector in it, every question (a dict, so with distinct
  trait keys) and every answer label, \<open>apply_answer\<close> returns a new object: its address
  is fresh, every object that was on the heap, the argument among them, is unchanged, and
  the new object has the keys of the argument, with \<open>delta * weight\<close> added to the value
  of each trait the question declares and the other values as they were.
\<close>

theorem apply_answer_fresh_copy:
  assumes "traits < length h" and "distinct (map fst (question_traits q))"
  shows "\<exists>updated h'. heap_apply_answer h traits q answer = (updated, h')
     \<and> updated = length h \<and> length h' = Suc (length h)
     \<and> (\<forall>a < length h. h' ! a = h ! a)
     \<and> h' ! updated = apply_answer (h ! traits) q answer
     \<and> map fst (h' ! updated) = map fst (h ! traits)
     \<and> (\<forall>(t, w) \<in> set (question_traits q). \<forall>v. map_of (h ! traits) t = Some v \<longrightarrow>
           map_of (h' ! updated) t = Some (v + real_of_int (answer_delta answer) * w))
     \<and> (\<forall>t. t \<notin> fst ` set (question_traits q) \<longrightarrow>
           map_of (h' ! updated) t = map_of (h ! traits) t)"
proof -
  let ?new = "apply_answer (h ! traits) q answer"
  have declared: "\<forall>(t, w) \<in> set (question_traits q). \<forall>v. map_of (h ! traits) t = Some v \<longrightarrow>
           map_of ?new t = Some (v + real_of_int (answer_delta answer) * w)"
    using assms(2) by (auto simp: apply_answer_declared)
  have others: "\<forall>t. t \<notin> fst ` set (question_traits q) \<longrightarrow> map_of ?new t = map_of (h ! traits) t"
    by (simp add: apply_answer_undeclared)
  have old: "\<forall>a < length h. (h @ [?new]) ! a = h ! a"
    by (simp add: nth_append)
  show ?thesis
    using declared others old
    by (simp add: heap_apply_answer_eq apply_answer_keys)
qed

theorem apply_answer_fresh_copy_witness:
  "heap_apply_answer [empty_traits] 0 \<lparr>qid = ''S1_01'', qtraits = Some [(''I'', 1), (''zzz'', 3)]\<rparr> ''A''
     = (1, [empty_traits,
            [(''apt'', 0), (''O'', 0), (''C'', 0), (''E'', 0), (''A'', 0), (''stab'', 0),
             (''R'', 0), (''I'', 2), (''Art'', 0)]])"
proof -
  let ?q = "\<lparr>qid = ''S1_01'', qtraits = Some [(''I'', 1), (''zzz'', 3)]\<rparr>"
  have a: "0 < length [empty_traits]" by simp
  have b: "distinct (map fst (question_traits ?q))" by (simp add: question_traits_def)
  from apply_answer_fresh_copy [OF a b, of "''A''"]
  obtain updated h' where r: "heap_apply_answer [empty_traits] 0 ?q ''A'' = (updated, h')"
    and u: "updated = 1" and l: "length h' = 2" and old: "h' ! 0 = empty_traits"
    and new: "h' ! updated = apply_answer empty_traits ?q ''A''"
    by auto
  have v: "apply_answer empty_traits ?q ''A'' = [(''apt'', 0), (''O'', 0), (''C'', 0), (''E'', 0), (''A'', 0), (''stab'', 0),
             (''R'', 0), (''I'', 2), (''Art'', 0)]"
    by (simp add: apply_answer_def answer_delta_A question_traits_def add_weighted_def dict_in_def
        dict_add_def empty_traits_def TRAIT_KEYS_def)
  have "h' = [h' ! 0, h' ! 1]"
    using l by (auto simp: list_eq_iff_nth_eq less_Suc_eq numeral_2_eq_2)
  then have "h' = [empty_traits, apply_answer empty_traits ?q ''A'']"
    using old new u by simp
  then show ?thesis
    using r u v by simp
qed

subsection \<open>The keys of a trait vector\<close>

lemma reachable_key_list: "reachable traits \<Longrightarrow> map fst traits = TRAIT_KEYS"
proof (induction rule: reachable.induct)
  case start
  show ?case by (simp add: empty_traits_def comp_def)
next
  case (answered traits q answer)
  then show ?case by (simp add: apply_answer_keys)
next
  case (normalised traits n mw normd)
  then show ?case using normalise_keys by simp
qed

text \<open>
  C10. Every trait vector reachable from \<open>empty_traits\<close> by calls of \<open>apply_answer\<close>
  (with any question and any answer) and of \<open>normalise_traits\<close> has exactly the nine keys
  of \<open>TRAIT_KEYS\<close>, each once and in that order: \<open>apply_answer\<close> adds no key
  (\<open>apply_answer_keys\<close>) and \<open>normalise_traits\<close> maps over the keys that are there
  (\<open>normalise_keys\<close>).
\<close>

theorem reachable_keys:
  assumes "reachable traits"
  shows "map fst traits = TRAIT_KEYS \<and> fst ` set traits = set TRAIT_KEYS
         \<and> distinct (map fst traits) \<and> length traits = 9"
proof -
  have k: "map fst traits = TRAIT_KEYS" using assms by (rule reachable_key_list)
  have "distinct TRAIT_KEYS" and "length TRAIT_KEYS = 9" by (simp_all add: TRAIT_KEYS_def)
  moreover have "length traits = length (map fst traits)" by simp
  moreover have "fst ` set traits = set (map fst traits)" by simp
  ultimately show ?thesis unfolding k by (simp only: k simp_thms)
qed

theorem reachable_keys_witness:
  "reachable [(''apt'', 1 / 2), (''O'', 1 / 2), (''C'', 1 / 2), (''E'', 1 / 2), (''A'', 1 / 2),
              (''stab'', 1 / 2), (''R'', 1 / 2), (''I'', 3 / 4), (''Art'', 1 / 2)]
   \<and> map fst [(''apt'', 1 / 2 :: real), (''O'', 1 / 2), (''C'', 1 / 2), (''E'', 1 / 2),
               (''A'', 1 / 2), (''stab'', 1 / 2), (''R'', 1 / 2), (''I'', 3 / 4), (''Art'', 1 / 2)]
       = TRAIT_KEYS"
proof -
  let ?q = "\<lparr>qid = ''S1_01'', qtraits = Some [(''I'', 1), (''zzz'', 3)]\<rparr>"
  let ?n = "[(''apt'', 1 / 2 :: real), (''O'', 1 / 2), (''C'', 1 / 2), (''E'', 1 / 2),
             (''A'', 1 / 2), (''stab'', 1 / 2), (''R'', 1 / 2), (''I'', 3 / 4), (''Art'', 1 / 2)]"
  have v: "apply_answer empty_traits ?q ''A''
             = [(''apt'', 0), (''O'', 0), (''C'', 0), (''E'', 0), (''A'', 0), (''stab'', 0),
                (''R'', 0), (''I'', 2), (''Art'', 0)]"
    by (simp add: apply_answer_def answer_delta_A question_traits_def add_weighted_def dict_in_def
        dict_add_def empty_traits_def TRAIT_KEYS_def)
  have r: "reachable (apply_answer empty_traits ?q ''A'')"
    by (rule reachable.answered [OF reachable.start])
  have n: "normalise_traits (apply_answer empty_traits ?q ''A'') 1 2 = Inr ?n"
    unfolding v by (simp add: normalise_traits_total)
  have "reachable ?n"
    by (rule reachable.normalised [OF r n])
  then show ?thesis
    using reachable_keys [of ?n] by simp
qed

subsection \<open>Monotonicity of accumulation followed by normalisation\<close>

lemma map_of_fold_add_weighted_sum:
  "map_of (fold (add_weighted delta) ws d) t =
     map_option (\<lambda>v. v + real_of_int delta * sum_list (map snd (filter (\<lambda>kw. fst kw = t) ws)))
       (map_of d t)"
proof (induction ws arbitrary: d)
  case Nil
  show ?case by (simp add: option.map_ident)
next
  case (Cons kw ws)
  obtain k w where kw: "kw = (k, w)" by (cases kw)
  have step: "map_of (fold (add_weighted delta) (kw # ws) d) t =
     map_option (\<lambda>v. v + real_of_int delta * sum_list (map snd (filter (\<lambda>kw. fst kw = t) ws)))
       (map_of (add_weighted delta (k, w) d) t)"
    using Cons.IH [of "add_weighted delta (k, w) d"] by (simp add: kw)
  show ?case
  proof (cases "t = k")
    case True
    show ?thesis
      unfolding step
      by (cases "map_of d k") (simp_all add: True kw map_of_add_weighted algebra_simps)
  next
    case False
    then have "k \<noteq> t" by blast
    then show ?thesis
      unfolding step using False by (simp add: kw map_of_add_weighted)
  qed
qed

lemma apply_answer_shift:
  "\<exists>c. \<forall>d. map_of (apply_answer d q a) t = map_option (\<lambda>v. v + c) (map_of d t)"
  unfolding apply_answer_def Let_def
  by (rule exI [of _ "real_of_int (answer_delta a)
        * sum_list (map snd (filter (\<lambda>kw. fst kw = t) (question_traits q)))"])
     (simp add: map_of_fold_add_weighted_sum)

lemma apply_answers_mono:
  "map_of d t = Some v \<Longrightarrow> map_of d' t = Some v' \<Longrightarrow> v \<le> v' \<Longrightarrow>
   \<exists>w w'. map_of (apply_answers d qas) t = Some w \<and> map_of (apply_answers d' qas) t = Some w'
           \<and> w \<le> w'"
proof (induction qas arbitrary: d d' v v')
  case Nil
  then show ?case by (simp add: apply_answers_def)
next
  case (Cons qa qas)
  obtain q a where qa: "qa = (q, a)" by (cases qa)
  obtain c where c: "\<forall>d. map_of (apply_answer d q a) t = map_option (\<lambda>v. v + c) (map_of d t)"
    using apply_answer_shift by blast
  have 1: "map_of (apply_answer d q a) t = Some (v + c)" using c Cons.prems(1) by simp
  have 2: "map_of (apply_answer d' q a) t = Some (v' + c)" using c Cons.prems(2) by simp
  have 3: "v + c \<le> v' + c" using Cons.prems(3) by simp
  from Cons.IH [OF 1 2 3] show ?case
    by (simp add: qa apply_answers_def)
qed

lemma apply_answers_keys: "map fst (apply_answers d qas) = map fst d"
  by (induction qas arbitrary: d) (auto simp: apply_answers_def apply_answer_keys)

lemma apply_answers_append:
  "apply_answers d (pre @ (q, a) # post) = apply_answers (apply_answer (apply_answers d pre) q a) post"
  by (simp add: apply_answers_def)

lemma map_of_normalised:
  "normalise_traits raw n mw = Inr normd \<Longrightarrow>
   map_of normd t = map_option (\<lambda>v. max 0 (min 1 ((v + max (real_of_int n * mw * 2) 1)
                                            / (2 * max (real_of_int n * mw * 2) 1)))) (map_of raw t)"
  by (induction raw arbitrary: normd) (auto simp: normalise_traits_total)

lemma clamp_affine_mono:
  assumes "v \<le> v'" and "0 < b"
  shows "max 0 (min 1 ((v + b) / (2 * b))) \<le> max (0::real) (min 1 ((v' + b) / (2 * b)))"
proof -
  have "(v + b) / (2 * b) \<le> (v' + b) / (2 * b)"
    using assms by (simp add: divide_right_mono)
  then show ?thesis by (simp add: max_def min_def)
qed

text \<open>
  C6. Take a trait vector that has the trait \<open>t\<close>, a sequence of answered questions
  \<open>pre\<close>, one more answered question, and a sequence \<open>post\<close>. Replace the one question and
  its answer by another whose contribution \<open>delta * weight\<close> to \<open>t\<close> is at least as large
  (a trait the question does not declare contributes 0), and keep \<open>pre\<close>, \<open>post\<close>,
  \<open>n_answered\<close> and \<open>max_abs_weight\<close>. Both runs normalise without an exception, and the
  normalised value of \<open>t\<close> in the second run is not below that in the first.
\<close>

theorem normalised_trait_monotone:
  assumes "t \<in> fst ` set traits"
    and "distinct (map fst (question_traits q))" and "distinct (map fst (question_traits q'))"
    and "real_of_int (answer_delta a) * dict_get (question_traits q) t 0
           \<le> real_of_int (answer_delta a') * dict_get (question_traits q') t 0"
  shows "\<exists>nd nd' v v'.
           normalise_traits (apply_answers traits (pre @ (q, a) # post)) n mw = Inr nd
         \<and> normalise_traits (apply_answers traits (pre @ (q', a') # post)) n mw = Inr nd'
         \<and> map_of nd t = Some v \<and> map_of nd' t = Some v' \<and> v \<le> v'"
proof -
  let ?S = "apply_answers traits pre"
  have "t \<in> fst ` set ?S"
    using assms(1) apply_answers_keys [of traits pre] by (metis list.set_map)
  then obtain v0 where v0: "map_of ?S t = Some v0"
    by (metis map_of_eq_None_iff not_Some_eq)
  have 1: "map_of (apply_answer ?S q a) t
             = Some (v0 + real_of_int (answer_delta a) * dict_get (question_traits q) t 0)"
    using assms(2) v0 by (simp add: apply_answer_def Let_def map_of_fold_add_weighted)
  have 2: "map_of (apply_answer ?S q' a') t
             = Some (v0 + real_of_int (answer_delta a') * dict_get (question_traits q') t 0)"
    using assms(3) v0 by (simp add: apply_answer_def Let_def map_of_fold_add_weighted)
  from apply_answers_mono [OF 1 2, of post] assms(4)
  obtain w w' where w: "map_of (apply_answers traits (pre @ (q, a) # post)) t = Some w"
    and w': "map_of (apply_answers traits (pre @ (q', a') # post)) t = Some w'"
    and le: "w \<le> w'"
    by (auto simp: apply_answers_append)
  let ?b = "max (real_of_int n * mw * 2) 1"
  have b: "0 < ?b" by simp
  obtain nd nd' where nd: "normalise_traits (apply_answers traits (pre @ (q, a) # post)) n mw = Inr nd"
    and nd': "normalise_traits (apply_answers traits (pre @ (q', a') # post)) n mw = Inr nd'"
    by (simp add: normalise_traits_total)
  have "map_of nd t = Some (max 0 (min 1 ((w + ?b) / (2 * ?b))))"
    using map_of_normalised [OF nd] w by simp
  moreover have "map_of nd' t = Some (max 0 (min 1 ((w' + ?b) / (2 * ?b))))"
    using map_of_normalised [OF nd'] w' by simp
  moreover note clamp_affine_mono [OF le b]
  ultimately show ?thesis using nd nd' by blast
qed

theorem normalised_trait_monotone_witness:
  "\<exists>nd nd' v v'.
      normalise_traits (apply_answers empty_traits
         ([] @ (\<lparr>qid = ''S1_01'', qtraits = Some [(''I'', 1)]\<rparr>, ''B'') # [])) 1 2 = Inr nd
    \<and> normalise_traits (apply_answers empty_traits
         ([] @ (\<lparr>qid = ''S1_01'', qtraits = Some [(''I'', 2)]\<rparr>, ''A'') # [])) 1 2 = Inr nd'
    \<and> map_of nd ''I'' = Some v \<and> map_of nd' ''I'' = Some v' \<and> v \<le> v'"
proof -
  let ?q = "\<lparr>qid = ''S1_01'', qtraits = Some [(''I'', 1 :: real)]\<rparr>"
  let ?q' = "\<lparr>qid = ''S1_01'', qtraits = Some [(''I'', 2 :: real)]\<rparr>"
  have t: "''I'' \<in> fst ` set empty_traits"
    by (simp add: empty_traits_def TRAIT_KEYS_def)
  have d: "distinct (map fst (question_traits ?q))" and d': "distinct (map fst (question_traits ?q'))"
    by (simp_all add: question_traits_def)
  have "answer_delta ''B'' = 1" by code_simp
  then have le: "real_of_int (answer_delta ''B'') * dict_get (question_traits ?q) ''I'' 0
           \<le> real_of_int (answer_delta ''A'') * dict_get (question_traits ?q') ''I'' 0"
    by (simp add: answer_delta_A question_traits_def dict_get_def)
  show ?thesis
    by (rule normalised_trait_monotone [OF t d d' le])
qed

subsection \<open>Adaptive question selector\<close>

text \<open>A shuffle permutes its list, whatever the generator draws.\<close>

lemma mset_shuffle_from:
  "k < length xs \<Longrightarrow> mset (fst (shuffle_from k xs r)) = mset xs"
proof (induction k arbitrary: xs r)
  case 0
  show ?case by simp
next
  case (Suc k)
  let ?j = "r 0 mod (Suc k + 1)"
  have "?j < Suc k + 1" by (rule mod_less_divisor) simp
  then have j: "?j < length xs" using Suc.prems by linarith
  have sw: "mset (xs[Suc k := xs ! ?j, ?j := xs ! Suc k]) = mset xs"
    using mset_swap [OF j Suc.prems] by simp
  have "k < length (xs[Suc k := xs ! ?j, ?j := xs ! Suc k])" using Suc.prems by simp
  from Suc.IH [OF this] sw show ?case
    by (simp add: randbelow_def)
qed

lemma mset_shuffle: "mset (fst (shuffle xs r)) = mset xs"
proof (cases xs)
  case Nil
  then show ?thesis by (simp add: shuffle_def)
next
  case (Cons x ys)
  then show ?thesis
    unfolding shuffle_def by (intro mset_shuffle_from) simp
qed

lemma slice_to_nonneg: "0 \<le> n \<Longrightarrow> slice_to n xs = take (nat n) xs"
  by (simp add: slice_to_def)


lemma mset_take_subset: "mset (take k xs) \<subseteq># mset xs"
  by (metis append_take_drop_id mset_append mset_subset_eq_add_left)

text \<open>
  For a count \<open>n\<close> that is not negative, the result is the first \<open>n\<close> items of a list
  \<open>ys\<close> of unused questions, and \<open>ys\<close> holds all of them when there are at most \<open>2 * n\<close>.
\<close>

lemma select_questions_shape:
  assumes "0 \<le> n"
  shows "\<exists>ys. fst (select_questions pool n used_ids norm_traits r) = take (nat n) ys
            \<and> mset ys \<subseteq># mset (filter (\<lambda>q. qid q \<notin> used_ids) pool)
            \<and> (length (filter (\<lambda>q. qid q \<notin> used_ids) pool) \<le> 2 * nat n \<longrightarrow>
                 mset ys = mset (filter (\<lambda>q. qid q \<notin> used_ids) pool))"
proof -
  let ?av = "filter (\<lambda>q. qid q \<notin> used_ids) pool"
  show ?thesis
  proof (cases "\<exists>nt. norm_traits = Some nt \<and> nt \<noteq> []")
    case True
    then obtain nt where nt: "norm_traits = Some nt" "nt \<noteq> []" by blast
    let ?sorted = "sort_key (\<lambda>q. - informativeness nt q) ?av"
    let ?m = "min (2 * n) (int (length ?sorted))"
    let ?top = "slice_to ?m ?sorted"
    have m0: "0 \<le> ?m" using assms by simp
    have top: "?top = take (nat ?m) ?sorted" using m0 by (rule slice_to_nonneg)
    have sub: "mset ?top \<subseteq># mset ?av"
      unfolding top using mset_take_subset [of "nat ?m" ?sorted] by simp
    have all: "length ?av \<le> 2 * nat n \<Longrightarrow> mset ?top = mset ?av"
    proof -
      assume "length ?av \<le> 2 * nat n"
      then have "length ?sorted \<le> nat ?m" using assms by simp
      then show ?thesis unfolding top by simp
    qed
    have "fst (select_questions pool n used_ids norm_traits r) = take (nat n) (fst (shuffle ?top r))"
      using nt assms by (simp add: select_questions_def Let_def slice_to_nonneg split: prod.splits)
    then show ?thesis
      using sub all by (intro exI [of _ "fst (shuffle ?top r)"]) (simp add: mset_shuffle)
  next
    case False
    then have "fst (select_questions pool n used_ids norm_traits r) = take (nat n) (fst (shuffle ?av r))"
      using assms by (auto simp: select_questions_def Let_def slice_to_nonneg split: prod.splits option.splits)
    then show ?thesis
      by (intro exI [of _ "fst (shuffle ?av r)"]) (simp add: mset_shuffle)
  qed
qed

text \<open>
  C5. For every question pool, every requested count \<open>n\<close> (a count: \<open>0 \<le> n\<close>; the slice
  \<^verbatim>\<open>[:n]\<close> reads a negative \<open>n\<close> from the end of the list), every set of used identifiers,
  every optional trait vector and every state of the random generator, \<open>select_questions\<close>
  returns questions of the pool whose identifier is not in \<open>used_ids\<close>, none more often
  than the pool has it, at most \<open>n\<close> of them, and all the unused questions when there are
  fewer than \<open>n\<close>. The trait vector decides the branch (uniform or biased by
  informativeness); the statement covers both.
\<close>

theorem select_questions_contract:
  assumes "0 \<le> n"
  shows "(\<forall>q \<in> set (fst (select_questions pool n used_ids norm_traits r)).
            q \<in> set pool \<and> qid q \<notin> used_ids)
       \<and> mset (fst (select_questions pool n used_ids norm_traits r))
            \<subseteq># mset (filter (\<lambda>q. qid q \<notin> used_ids) pool)
       \<and> int (length (fst (select_questions pool n used_ids norm_traits r))) \<le> n
       \<and> (int (length (filter (\<lambda>q. qid q \<notin> used_ids) pool)) < n \<longrightarrow>
            mset (fst (select_questions pool n used_ids norm_traits r))
              = mset (filter (\<lambda>q. qid q \<notin> used_ids) pool))"
proof -
  let ?av = "filter (\<lambda>q. qid q \<notin> used_ids) pool"
  let ?res = "fst (select_questions pool n used_ids norm_traits r)"
  from select_questions_shape [OF assms, of pool used_ids norm_traits r]
  obtain ys where res: "?res = take (nat n) ys"
    and sub: "mset ys \<subseteq># mset ?av"
    and all: "length ?av \<le> 2 * nat n \<longrightarrow> mset ys = mset ?av"
    by blast
  have rsub: "mset ?res \<subseteq># mset ?av"
    unfolding res using mset_take_subset [of "nat n" ys] sub by (rule subset_mset.order_trans)
  then have "set ?res \<subseteq> set ?av"
    by (metis set_mset_mono set_mset_mset)
  then have 1: "\<forall>q \<in> set ?res. q \<in> set pool \<and> qid q \<notin> used_ids" by auto
  have 3: "int (length ?res) \<le> n" unfolding res using assms by simp
  have 4: "int (length ?av) < n \<longrightarrow> mset ?res = mset ?av"
  proof
    assume lt: "int (length ?av) < n"
    then have "length ?av \<le> 2 * nat n" by linarith
    with all have ys: "mset ys = mset ?av" by blast
    then have "length ys = length ?av" by (metis size_mset)
    then have "length ys \<le> nat n" using lt by linarith
    then show "mset ?res = mset ?av" unfolding res using ys by simp
  qed
  show ?thesis using 1 rsub 3 4 by blast
qed

theorem select_questions_contract_witness:
  "fst (select_questions
          [\<lparr>qid = ''S2_01'', qtraits = Some [(''I'', 1)]\<rparr>,
           \<lparr>qid = ''S2_02'', qtraits = Some [(''O'', 1)]\<rparr>,
           \<lparr>qid = ''S2_03'', qtraits = Some [(''I'', 2)]\<rparr>]
          5 {''S2_02''} (Some [(''I'', 1 / 2)]) (\<lambda>i. 0))
     = [\<lparr>qid = ''S2_01'', qtraits = Some [(''I'', 1)]\<rparr>,
        \<lparr>qid = ''S2_03'', qtraits = Some [(''I'', 2)]\<rparr>]"
proof -
  let ?pool = "[\<lparr>qid = ''S2_01'', qtraits = Some [(''I'', 1 :: real)]\<rparr>,
           \<lparr>qid = ''S2_02'', qtraits = Some [(''O'', 1)]\<rparr>,
           \<lparr>qid = ''S2_03'', qtraits = Some [(''I'', 2)]\<rparr>]"
  let ?res = "fst (select_questions ?pool 5 {''S2_02''} (Some [(''I'', 1 / 2)]) (\<lambda>i. 0))"
  have n: "(0::int) \<le> 5" by simp
  have av: "filter (\<lambda>q. qid q \<notin> {''S2_02''}) ?pool
              = [\<lparr>qid = ''S2_01'', qtraits = Some [(''I'', 1)]\<rparr>,
                 \<lparr>qid = ''S2_03'', qtraits = Some [(''I'', 2)]\<rparr>]"
    by simp
  from select_questions_contract [OF n, of ?pool "{''S2_02''}" "Some [(''I'', 1 / 2)]" "\<lambda>i. 0"]
  have m: "mset ?res = mset (filter (\<lambda>q. qid q \<notin> {''S2_02''}) ?pool)"
    unfolding av by simp
  have e: "?res = [\<lparr>qid = ''S2_01'', qtraits = Some [(''I'', 1)]\<rparr>,
        \<lparr>qid = ''S2_03'', qtraits = Some [(''I'', 2)]\<rparr>]"
    by (simp add: select_questions_def Let_def informativeness_def question_traits_def dict_get_def
         slice_to_def shuffle_def randbelow_def)
  show ?thesis using m e by simp
qed

text \<open>
  A negative \<open>n\<close> is no count: the slice \<^verbatim>\<open>[:n]\<close> then drops the last items of the shuffled
  list, here one of three.
\<close>

lemma select_questions_negative_count:
  "fst (select_questions
          [\<lparr>qid = ''S2_01'', qtraits = Some [(''I'', 1)]\<rparr>,
           \<lparr>qid = ''S2_02'', qtraits = Some [(''O'', 1)]\<rparr>,
           \<lparr>qid = ''S2_03'', qtraits = Some [(''I'', 2)]\<rparr>]
          (- 1) {} None (\<lambda>i. 0))
     = [\<lparr>qid = ''S2_02'', qtraits = Some [(''O'', 1)]\<rparr>,
        \<lparr>qid = ''S2_03'', qtraits = Some [(''I'', 2)]\<rparr>]"
  by (simp add: select_questions_def slice_to_def shuffle_def randbelow_def)

subsection \<open>\<^verbatim>\<open>math.exp\<close>, the activation and rounding\<close>

lemma exp_or_inf_eq:
  "exp_or_inf x = Inr (if EXP_OVERFLOW < x then PosInf
                       else if x < EXP_UNDERFLOW then Fin 0 else Fin (exp x))"
  by (simp add: exp_or_inf_def math_exp_def)

lemma engine_sigmoid_overflow:
  "EXP_OVERFLOW < - sharpness * (x - 0.5) \<Longrightarrow>
   engine_sigmoid x sharpness = Inr (if x < 0.5 then 0 else 1)"
  by (simp add: engine_sigmoid_def math_exp_def bind_err_def)

lemma engine_sigmoid_no_overflow:
  "\<not> EXP_OVERFLOW < - sharpness * (x - 0.5) \<Longrightarrow>
   engine_sigmoid x sharpness =
     Inr (1 / (1 + (if - sharpness * (x - 0.5) < EXP_UNDERFLOW then 0
                    else exp (- sharpness * (x - 0.5)))))"
proof -
  have "1 + exp (- sharpness * (x - 0.5)) \<noteq> 0"
    using exp_gt_zero [of "- sharpness * (x - 0.5)"] by linarith
  then show "\<not> EXP_OVERFLOW < - sharpness * (x - 0.5) \<Longrightarrow> ?thesis"
    by (simp add: engine_sigmoid_def math_exp_def bind_err_def py_div_def)
qed

lemma engine_sigmoid_total:
  "\<exists>y. engine_sigmoid x sharpness = Inr y \<and> 0 \<le> y \<and> y \<le> 1"
proof (cases "EXP_OVERFLOW < - sharpness * (x - 0.5)")
  case True
  then show ?thesis by (simp add: engine_sigmoid_overflow)
next
  case False
  have "0 < exp (- sharpness * (x - 0.5))" by simp
  then show ?thesis
    using False by (simp add: engine_sigmoid_no_overflow del: exp_gt_zero) 
qed

lemma exp_or_inf_val: "exp_or_inf x = Inr (exp_val x)"
  by (simp add: exp_or_inf_eq exp_val_def exp_fin_def)

lemma round_half_even_error: "\<bar>of_int (round_half_even y) - y\<bar> \<le> 1 / 2"
proof -
  have "of_int \<lfloor>y\<rfloor> \<le> y" and "y < of_int \<lfloor>y\<rfloor> + 1" by linarith+
  then show ?thesis
    by (auto simp: round_half_even_def Let_def)
qed

lemma round_half_even_nonneg: "0 \<le> y \<Longrightarrow> 0 \<le> round_half_even y"
  by (auto simp: round_half_even_def Let_def)

lemma py_round2_error: "\<bar>py_round2 x - x\<bar> \<le> 1 / 200"
proof -
  have "\<bar>of_int (round_half_even (x * 100)) - x * 100\<bar> \<le> 1 / 2"
    by (rule round_half_even_error)
  then show ?thesis
    by (simp add: py_round2_def field_simps abs_le_iff)
qed

lemma py_round2_nonneg: "0 \<le> x \<Longrightarrow> 0 \<le> py_round2 x"
  using round_half_even_nonneg [of "x * 100"] by (simp add: py_round2_def)

lemma or_one_nonzero: "or_one s \<noteq> 0"
  by (simp add: or_one_def)

lemma percentage_eq: "percentage (or_one s) v = Inr (py_round2 (v / or_one s * 100))"
  by (simp add: percentage_def py_div_def bind_err_def or_one_nonzero)

lemma exp_vals_eq:
  "dict_comp (\<lambda>(k, v). exp_or_inf (v * T)) scores
     = Inr (map (\<lambda>kv. (fst kv, exp_val (snd kv * T))) scores)"
  by (rule dict_comp_total) (simp add: exp_or_inf_val case_prod_beta)

lemma inf_keys_eq:
  "map fst (filter (\<lambda>(k, v). v = PosInf) (map (\<lambda>kv. (fst kv, exp_val (snd kv * T))) scores))
     = map fst (filter (\<lambda>kv. EXP_OVERFLOW < snd kv * T) scores)"
  by (induction scores) (auto simp: exp_val_def)

lemma finite_items_no_inf:
  "\<forall>kv \<in> set scores. snd kv * T \<le> EXP_OVERFLOW \<Longrightarrow>
   finite_items (map (\<lambda>kv. (fst kv, exp_val (snd kv * T))) scores)
     = map (\<lambda>kv. (fst kv, exp_fin (snd kv * T))) scores"
  by (induction scores) (auto simp: exp_val_def)

lemma engine_softmax_no_overflow:
  assumes "\<forall>kv \<in> set scores. snd kv * T \<le> EXP_OVERFLOW"
  shows "engine_softmax scores T =
     Inr (map (\<lambda>kv. (fst kv, py_round2 (exp_fin (snd kv * T)
                 / or_one (sum_list (map (\<lambda>kv. exp_fin (snd kv * T)) scores)) * 100))) scores)"
proof -
  have "filter (\<lambda>kv. EXP_OVERFLOW < snd kv * T) scores = []"
    using assms by (auto simp: filter_empty_conv)
  then have no_inf: "map fst (filter (\<lambda>(k, v). v = PosInf)
      (map (\<lambda>kv. (fst kv, exp_val (snd kv * T))) scores)) = []"
    by (simp only: inf_keys_eq list.map)
  have comp: "dict_comp (\<lambda>(k, v). percentage (or_one s) v) (map (\<lambda>kv. (fst kv, exp_fin (snd kv * T))) scores)
     = Inr (map (\<lambda>kv. (fst kv, py_round2 (exp_fin (snd kv * T) / or_one s * 100))) scores)" for s
  proof -
    have "dict_comp (\<lambda>(k, v). percentage (or_one s) v) (map (\<lambda>kv. (fst kv, exp_fin (snd kv * T))) scores)
      = Inr (map (\<lambda>kv. (fst kv, py_round2 (snd kv / or_one s * 100)))
               (map (\<lambda>kv. (fst kv, exp_fin (snd kv * T))) scores))"
      by (rule dict_comp_total) (simp add: percentage_eq case_prod_beta)
    then show ?thesis by (simp add: comp_def)
  qed
  show ?thesis
    unfolding engine_softmax_def exp_vals_eq bind_err_def Let_def
    by (simp only: sum.case no_inf finite_items_no_inf [OF assms] simp_thms if_False comp
        map_map comp_def snd_conv)
qed

lemma engine_softmax_overflow:
  assumes "\<exists>kv \<in> set scores. EXP_OVERFLOW < snd kv * T"
  shows "engine_softmax scores T =
     Inr (map (\<lambda>kv. (fst kv,
                     if fst kv \<in> fst ` {kv \<in> set scores. EXP_OVERFLOW < snd kv * T}
                     then 100 / real (length (filter (\<lambda>kv. EXP_OVERFLOW < snd kv * T) scores))
                     else 0)) scores)"
proof -
  let ?ov = "filter (\<lambda>kv. EXP_OVERFLOW < snd kv * T) scores"
  have ne: "?ov \<noteq> []"
    using assms by (auto simp: filter_empty_conv)
  then have len: "real (length ?ov) \<noteq> 0" by simp
  have ne': "filter (\<lambda>(k, v). v = PosInf) (map (\<lambda>kv. (fst kv, exp_val (snd kv * T))) scores) \<noteq> []"
    using ne inf_keys_eq [of T scores] by (metis map_is_Nil_conv)
  have set_eq: "set (map fst ?ov) = fst ` {kv \<in> set scores. EXP_OVERFLOW < snd kv * T}"
    by auto
  have "engine_softmax scores T =
      bind_err (py_div 100 (real (length (map fst ?ov)))) (\<lambda>share.
              Inr (map (\<lambda>(k, v). (k, if k \<in> set (map fst ?ov) then share else 0)) scores))"
    using ne ne'
    by (simp only: engine_softmax_def exp_vals_eq bind_err_def sum.case Let_def inf_keys_eq
          map_is_Nil_conv if_True simp_thms)
  also have "\<dots> = Inr (map (\<lambda>(k, v). (k, if k \<in> set (map fst ?ov)
                     then 100 / real (length ?ov) else 0)) scores)"
    using len by (simp add: py_div_def bind_err_def)
  finally show ?thesis
    unfolding set_eq by (simp add: case_prod_beta del: set_filter)
qed

subsection \<open>Distribution builder\<close>

lemma math_exp_fin: "x \<le> EXP_OVERFLOW \<Longrightarrow> math_exp x = Inr (exp_fin x)"
  by (simp add: math_exp_def exp_fin_def)

lemma percentages_eq:
  "dict_comp (\<lambda>(k, v). percentage (or_one s) v) (map (\<lambda>kv. (fst kv, f kv)) scores)
     = Inr (map (\<lambda>kv. (fst kv, py_round2 (f kv / or_one s * 100))) scores)"
proof -
  have "dict_comp (\<lambda>(k, v). percentage (or_one s) v) (map (\<lambda>kv. (fst kv, f kv)) scores)
      = Inr (map (\<lambda>kv. (fst kv, py_round2 (snd kv / or_one s * 100)))
               (map (\<lambda>kv. (fst kv, f kv)) scores))"
    by (rule dict_comp_total) (simp add: percentage_eq case_prod_beta)
  then show ?thesis by (simp add: comp_def)
qed

lemma scoring_softmax_no_overflow:
  assumes "\<forall>kv \<in> set vals. snd kv * 5 \<le> EXP_OVERFLOW"
  shows "scoring_softmax vals =
     Inr (map (\<lambda>kv. (fst kv, py_round2 (exp_fin (snd kv * 5)
                 / or_one (sum_list (map (\<lambda>kv. exp_fin (snd kv * 5)) vals)) * 100))) vals)"
proof -
  have ev: "dict_comp (\<lambda>(k, v). math_exp (v * 5)) vals
              = Inr (map (\<lambda>kv. (fst kv, exp_fin (snd kv * 5))) vals)"
    using assms by (intro dict_comp_total) (simp add: math_exp_fin case_prod_beta)
  show ?thesis
    unfolding scoring_softmax_def ev bind_err_def Let_def
    by (simp only: sum.case percentages_eq map_map comp_def snd_conv)
qed

lemma dict_comp_raises:
  "kv \<in> set d \<Longrightarrow> f kv = Inl e \<Longrightarrow> \<forall>x \<in> set d. f x = Inl e \<or> (\<exists>y. f x = Inr y) \<Longrightarrow>
   dict_comp f d = Inl e"
  by (induction d) (auto simp: bind_err_def split: sum.splits)

lemma scoring_softmax_overflow:
  assumes "\<exists>kv \<in> set vals. EXP_OVERFLOW < snd kv * 5"
  shows "scoring_softmax vals = Inl OverflowError"
proof -
  from assms obtain kv where kv: "kv \<in> set vals" "EXP_OVERFLOW < snd kv * 5" by blast
  have "dict_comp (\<lambda>(k, v). math_exp (v * 5)) vals = Inl OverflowError"
  proof (rule dict_comp_raises [OF kv(1)])
    show "(case kv of (k, v) \<Rightarrow> math_exp (v * 5)) = Inl OverflowError"
      using kv(2) by (simp add: math_exp_def case_prod_beta)
    show "\<forall>x\<in>set vals. (case x of (k, v) \<Rightarrow> math_exp (v * 5)) = Inl OverflowError
            \<or> (\<exists>y. (case x of (k, v) \<Rightarrow> math_exp (v * 5)) = Inr y)"
      by (simp add: math_exp_def case_prod_beta)
  qed
  then show ?thesis by (simp add: scoring_softmax_def bind_err_def)
qed

text \<open>The exact shares sum to 100, and rounding moves each by at most 0.005.\<close>

lemma sum_list_scaled:
  "sum_list (map (\<lambda>x. f x / s * 100) xs) = sum_list (map f xs) / s * (100 :: real)"
  by (induction xs) (simp_all add: add_divide_distrib distrib_right)

lemma sum_list_shares:
  assumes "s \<noteq> 0" and "s = sum_list (map f xs)"
  shows "sum_list (map (\<lambda>x. f x / s * 100) xs) = (100 :: real)"
  unfolding sum_list_scaled using assms by simp

lemma sum_list_error:
  "\<forall>x \<in> set xs. \<bar>f x - g x\<bar> \<le> c \<Longrightarrow>
   \<bar>sum_list (map f xs) - sum_list (map g xs)\<bar> \<le> c * real (length xs)" for c :: real
proof (induction xs)
  case Nil
  show ?case by simp
next
  case (Cons x xs)
  then have "\<bar>f x - g x\<bar> \<le> c" and "\<bar>sum_list (map f xs) - sum_list (map g xs)\<bar> \<le> c * real (length xs)"
    by simp_all
  then show ?case by (simp add: algebra_simps abs_le_iff)
qed

lemma sum_list_pos_nonempty:
  "xs \<noteq> [] \<Longrightarrow> \<forall>x \<in> set xs. 0 < f x \<Longrightarrow> 0 < sum_list (map f xs)" for f :: "'a \<Rightarrow> real"
proof (induction xs)
  case Nil
  then show ?case by simp
next
  case (Cons x xs)
  have "0 \<le> sum_list (map f xs)"
    using Cons.prems(2) by (intro sum_list_nonneg) (auto simp: less_imp_le)
  moreover have "0 < f x" using Cons.prems(2) by simp
  ultimately show ?case by simp
qed

lemma rounded_shares:
  fixes f :: "string \<times> real \<Rightarrow> real"
  assumes "scores \<noteq> []" and "\<forall>kv \<in> set scores. 0 < f kv"
  defines "r \<equiv> map (\<lambda>kv. (fst kv, py_round2 (f kv / or_one (sum_list (map f scores)) * 100))) scores"
  shows "map fst r = map fst scores"
    and "\<forall>(k, p) \<in> set r. 0 \<le> p"
    and "\<bar>sum_list (map snd r) - 100\<bar> \<le> 0.005 * real (length scores)"
proof -
  let ?s = "sum_list (map f scores)"
  have pos: "0 < ?s" using assms(1,2) by (rule sum_list_pos_nonempty)
  then have one: "or_one ?s = ?s" by (simp add: or_one_def)
  show "map fst r = map fst scores" by (simp add: r_def comp_def)
  show "\<forall>(k, p) \<in> set r. 0 \<le> p"
  proof -
    have "0 \<le> py_round2 (f kv / ?s * 100)" if "kv \<in> set scores" for kv
    proof (rule py_round2_nonneg)
      have "0 < f kv" using assms(2) that by blast
      then show "0 \<le> f kv / ?s * 100" using pos by simp
    qed
    then show ?thesis by (auto simp: r_def one)
  qed
  have "map snd r = map (\<lambda>kv. py_round2 (f kv / ?s * 100)) scores"
    by (simp add: r_def one comp_def)
  moreover have "\<bar>sum_list (map (\<lambda>kv. py_round2 (f kv / ?s * 100)) scores)
                  - sum_list (map (\<lambda>kv. f kv / ?s * 100) scores)\<bar> \<le> (1 / 200) * real (length scores)"
    by (rule sum_list_error) (intro ballI py_round2_error)
  moreover have "sum_list (map (\<lambda>kv. f kv / ?s * 100) scores) = 100"
    using pos by (intro sum_list_shares) simp_all
  ultimately show "\<bar>sum_list (map snd r) - 100\<bar> \<le> 0.005 * real (length scores)"
    by simp
qed

lemma activation_range:
  assumes "0 \<le> v" "v \<le> 1" "0 \<le> T" "T \<le> 5"
  shows "v * T \<le> EXP_OVERFLOW" and "0 < exp_fin (v * T)"
proof -
  have "v * T \<le> 1 * 5" using assms by (intro mult_mono) simp_all
  then show "v * T \<le> EXP_OVERFLOW" by (simp add: EXP_OVERFLOW_def)
  have "0 \<le> v * T" using assms by simp
  then show "0 < exp_fin (v * T)" by (simp add: exp_fin_def EXP_UNDERFLOW_def)
qed

text \<open>
  C1 (as amended). For every non-empty mapping of activations, that is of values between
  0 and 1 as the activation function produces them, and at every temperature from 0 to 5
  (the variants use 4 and 5), the distribution builder of each variant returns without an
  exception, for the keys of its argument in their order, percentages that are not negative
  and whose sum differs from 100 by at most 0.005 times the number of candidates: each
  percentage is rounded to two decimals on its own.
\<close>

theorem softmax_percentages:
  assumes "scores \<noteq> []" and "\<forall>(k, v) \<in> set scores. 0 \<le> v \<and> v \<le> 1" and "0 \<le> T" and "T \<le> 5"
  shows "(\<exists>r. engine_softmax scores T = Inr r \<and> map fst r = map fst scores
             \<and> (\<forall>(k, p) \<in> set r. 0 \<le> p)
             \<and> \<bar>sum_list (map snd r) - 100\<bar> \<le> 0.005 * real (length scores))
       \<and> (\<exists>r. scoring_softmax scores = Inr r \<and> map fst r = map fst scores
             \<and> (\<forall>(k, p) \<in> set r. 0 \<le> p)
             \<and> \<bar>sum_list (map snd r) - 100\<bar> \<le> 0.005 * real (length scores))"
proof
  have ov: "\<forall>kv \<in> set scores. snd kv * T \<le> EXP_OVERFLOW"
    and pos: "\<forall>kv \<in> set scores. 0 < exp_fin (snd kv * T)"
    using assms(2-4) activation_range by (auto simp: case_prod_beta)
  show "\<exists>r. engine_softmax scores T = Inr r \<and> map fst r = map fst scores
             \<and> (\<forall>(k, p) \<in> set r. 0 \<le> p)
             \<and> \<bar>sum_list (map snd r) - 100\<bar> \<le> 0.005 * real (length scores)"
    unfolding engine_softmax_no_overflow [OF ov]
    using rounded_shares [of scores "\<lambda>kv. exp_fin (snd kv * T)", OF assms(1) pos] by blast
  have ov5: "\<forall>kv \<in> set scores. snd kv * 5 \<le> EXP_OVERFLOW"
    and pos5: "\<forall>kv \<in> set scores. 0 < exp_fin (snd kv * 5)"
    using assms(2) activation_range [of _ 5] by (auto simp: case_prod_beta)
  show "\<exists>r. scoring_softmax scores = Inr r \<and> map fst r = map fst scores
             \<and> (\<forall>(k, p) \<in> set r. 0 \<le> p)
             \<and> \<bar>sum_list (map snd r) - 100\<bar> \<le> 0.005 * real (length scores)"
    unfolding scoring_softmax_no_overflow [OF ov5]
    using rounded_shares [of scores "\<lambda>kv. exp_fin (snd kv * 5)", OF assms(1) pos5] by blast
qed

text \<open>
  Candidates of equal activation get equal percentages, \<open>100 / n\<close> rounded to two decimals.
\<close>

lemma uniform_shares:
  assumes "keys \<noteq> []" and "c \<noteq> 0"
  shows "map (\<lambda>kv. (fst kv, py_round2 (c / or_one (sum_list (map (\<lambda>kv. c) (map (\<lambda>k. (k, a)) keys))) * 100)))
           (map (\<lambda>k. (k, a :: real)) keys)
         = map (\<lambda>k. (k, py_round2 (100 / real (length keys)))) keys"
proof -
  have "sum_list (map (\<lambda>kv. c) (map (\<lambda>k. (k, a)) keys)) = real (length keys) * c"
    by (simp add: comp_def sum_list_triv)
  moreover have "real (length keys) * c \<noteq> 0" using assms by simp
  ultimately have "c / or_one (sum_list (map (\<lambda>kv. c) (map (\<lambda>k. (k, a)) keys))) * 100
     = 100 / real (length keys)"
    using assms(2) by (simp add: or_one_def)
  then show ?thesis by (simp add: comp_def)
qed

lemma engine_softmax_uniform:
  assumes "keys \<noteq> []" and "0 \<le> a" "a \<le> 1" "0 \<le> T" "T \<le> 5"
  shows "engine_softmax (map (\<lambda>k. (k, a)) keys) T
           = Inr (map (\<lambda>k. (k, py_round2 (100 / real (length keys)))) keys)"
proof -
  have ov: "\<forall>kv \<in> set (map (\<lambda>k. (k, a)) keys). snd kv * T \<le> EXP_OVERFLOW"
    using activation_range(1) [OF assms(2-5)] by simp
  have c: "exp_fin (a * T) \<noteq> 0" using activation_range(2) [OF assms(2-5)] by simp
  have "engine_softmax (map (\<lambda>k. (k, a)) keys) T
      = Inr (map (\<lambda>kv. (fst kv, py_round2 (exp_fin (a * T)
            / or_one (sum_list (map (\<lambda>kv. exp_fin (a * T)) (map (\<lambda>k. (k, a)) keys))) * 100)))
           (map (\<lambda>k. (k, a)) keys))"
    unfolding engine_softmax_no_overflow [OF ov] by (simp add: comp_def)
  then show ?thesis
    unfolding uniform_shares [OF assms(1) c] .
qed

lemma scoring_softmax_uniform:
  assumes "keys \<noteq> []" and "0 \<le> a" "a \<le> 1"
  shows "scoring_softmax (map (\<lambda>k. (k, a)) keys)
           = Inr (map (\<lambda>k. (k, py_round2 (100 / real (length keys)))) keys)"
proof -
  have ov: "\<forall>kv \<in> set (map (\<lambda>k. (k, a)) keys). snd kv * 5 \<le> EXP_OVERFLOW"
    using activation_range(1) [OF assms(2,3), of 5] by simp
  have c: "exp_fin (a * 5) \<noteq> 0" using activation_range(2) [OF assms(2,3), of 5] by simp
  have "scoring_softmax (map (\<lambda>k. (k, a)) keys)
      = Inr (map (\<lambda>kv. (fst kv, py_round2 (exp_fin (a * 5)
            / or_one (sum_list (map (\<lambda>kv. exp_fin (a * 5)) (map (\<lambda>k. (k, a)) keys))) * 100)))
           (map (\<lambda>k. (k, a)) keys))"
    unfolding scoring_softmax_no_overflow [OF ov] by (simp add: comp_def)
  then show ?thesis
    unfolding uniform_shares [OF assms(1) c] .
qed

lemma py_round2_seventh: "py_round2 (100 / 7) = 14.29"
  by (simp add: py_round2_def round_half_even_def Let_def)

text \<open>
  C1 as stated asks for a sum within 0.01 of 100. Seven candidates of activation one half
  (seven nodes of equal weights, say) get 14.29 each in both variants, which sum to 100.03.
\<close>

theorem softmax_sum_counterexample:
  "engine_softmax [(''a'', 1 / 2), (''b'', 1 / 2), (''c'', 1 / 2), (''d'', 1 / 2), (''e'', 1 / 2),
                   (''f'', 1 / 2), (''g'', 1 / 2)] 4
     = Inr [(''a'', 14.29), (''b'', 14.29), (''c'', 14.29), (''d'', 14.29), (''e'', 14.29),
            (''f'', 14.29), (''g'', 14.29)]
   \<and> scoring_softmax [(''a'', 1 / 2), (''b'', 1 / 2), (''c'', 1 / 2), (''d'', 1 / 2), (''e'', 1 / 2),
                   (''f'', 1 / 2), (''g'', 1 / 2)]
     = Inr [(''a'', 14.29), (''b'', 14.29), (''c'', 14.29), (''d'', 14.29), (''e'', 14.29),
            (''f'', 14.29), (''g'', 14.29)]
   \<and> sum_list (map snd [(''a'', 14.29 :: real), (''b'', 14.29), (''c'', 14.29), (''d'', 14.29),
                          (''e'', 14.29), (''f'', 14.29), (''g'', 14.29)]) = 100.03
   \<and> \<not> \<bar>(100.03 :: real) - 100\<bar> \<le> 0.01"
  using engine_softmax_uniform [of "[''a'', ''b'', ''c'', ''d'', ''e'', ''f'', ''g'']" "1 / 2" 4]
        scoring_softmax_uniform [of "[''a'', ''b'', ''c'', ''d'', ''e'', ''f'', ''g'']" "1 / 2"]
  by (simp add: py_round2_seventh)

lemma py_round2_third: "py_round2 (100 / 3) = 33.33"
  by (simp add: py_round2_def round_half_even_def Let_def)

theorem softmax_percentages_witness:
  "engine_softmax [(''a'', 1 / 2), (''b'', 1 / 2), (''c'', 1 / 2)] 4
     = Inr [(''a'', 33.33), (''b'', 33.33), (''c'', 33.33)]
   \<and> scoring_softmax [(''a'', 1 / 2), (''b'', 1 / 2), (''c'', 1 / 2)]
     = Inr [(''a'', 33.33), (''b'', 33.33), (''c'', 33.33)]
   \<and> \<bar>sum_list (map snd [(''a'', 33.33 :: real), (''b'', 33.33), (''c'', 33.33)]) - 100\<bar>
        \<le> 0.005 * real (length [(''a'', 1 / 2 :: real), (''b'', 1 / 2), (''c'', 1 / 2)])"
proof -
  let ?s = "[(''a'', 1 / 2 :: real), (''b'', 1 / 2), (''c'', 1 / 2)]"
  have e: "engine_softmax ?s 4 = Inr [(''a'', 33.33), (''b'', 33.33), (''c'', 33.33)]"
    using engine_softmax_uniform [of "[''a'', ''b'', ''c'']" "1 / 2" 4]
    by (simp add: py_round2_third)
  have c: "scoring_softmax ?s = Inr [(''a'', 33.33), (''b'', 33.33), (''c'', 33.33)]"
    using scoring_softmax_uniform [of "[''a'', ''b'', ''c'']" "1 / 2"]
    by (simp add: py_round2_third)
  have h: "\<forall>(k, v) \<in> set ?s. 0 \<le> v \<and> v \<le> 1" by simp
  have ne: "?s \<noteq> []" and t0: "(0 :: real) \<le> 4" and t5: "(4 :: real) \<le> 5" by simp_all
  from softmax_percentages [OF ne h t0 t5]
  obtain r where "engine_softmax ?s 4 = Inr r"
    and "\<bar>sum_list (map snd r) - 100\<bar> \<le> 0.005 * real (length ?s)"
    by blast
  then have "\<bar>sum_list (map snd [(''a'', 33.33 :: real), (''b'', 33.33), (''c'', 33.33)]) - 100\<bar>
        \<le> 0.005 * real (length ?s)"
    unfolding e by blast
  with e c show ?thesis by blast
qed

subsection \<open>Overflow in the distribution builder of CJL-PRO\<close>


lemma engine_softmax_total:
  "\<exists>r. engine_softmax scores T = Inr r \<and> map fst r = map fst scores"
proof (cases "\<exists>kv \<in> set scores. EXP_OVERFLOW < snd kv * T")
  case True
  show ?thesis
    unfolding engine_softmax_overflow [OF True] by (simp add: comp_def)
next
  case False
  then have "\<forall>kv \<in> set scores. snd kv * T \<le> EXP_OVERFLOW" by auto
  then show ?thesis
    by (simp add: engine_softmax_no_overflow comp_def)
qed

subsection \<open>Scoring and ranking\<close>

lemma dict_comp_returns:
  "\<forall>kv \<in> set d. \<exists>y. f kv = Inr y \<Longrightarrow> \<exists>out. dict_comp f d = Inr out \<and> map fst out = map fst d"
  by (induction d) (auto simp: bind_err_def)

lemma score_nodes_total:
  "\<exists>probs. score_nodes nodes nt = Inr probs \<and> map fst probs = map fst nodes"
proof -
  have "\<forall>kv \<in> set nodes. \<exists>y. (case kv of (name, cfg) \<Rightarrow>
           engine_sigmoid (dot_product (node_weights cfg) nt) 10) = Inr y"
    using engine_sigmoid_total by (auto simp: case_prod_beta)
  from dict_comp_returns [OF this]
  obtain acts where acts: "dict_comp (\<lambda>(name, cfg). engine_sigmoid (dot_product (node_weights cfg) nt) 10) nodes
       = Inr acts" and k: "map fst acts = map fst nodes"
    by blast
  from engine_softmax_total [of acts 4] k show ?thesis
    by (auto simp: score_nodes_def acts bind_err_def)
qed

lemma with_cfg_total:
  "set (map fst probs) \<subseteq> fst ` set taxonomy \<Longrightarrow>
   \<exists>xs. with_cfg taxonomy probs = Inr xs \<and> map (\<lambda>x. (fst x, fst (snd x))) xs = probs"
proof (induction probs)
  case Nil
  show ?case by simp
next
  case (Cons np probs)
  then obtain xs where xs: "with_cfg taxonomy probs = Inr xs"
      "map (\<lambda>x. (fst x, fst (snd x))) xs = probs"
    by auto
  from Cons.prems have "fst np \<in> fst ` set taxonomy" by simp
  then obtain cfg where "map_of taxonomy (fst np) = Some cfg"
    by (metis map_of_eq_None_iff not_Some_eq)
  then show ?case using xs by (simp add: bind_err_def)
qed

text \<open>
  C8. For every candidate mapping and every trait vector, \<open>score_nodes\<close> returns a
  probability mapping over the names of the candidates, and \<open>ranked_nodes\<close> returns for it
  the list \<open>xs\<close> of the candidates in insertion order, rearranged: the percentages descend
  along the ranked list (a candidate of larger percentage comes before one of smaller),
  and the candidates of any one percentage stand in the order they have in \<open>xs\<close>.
\<close>

theorem ranked_nodes_descending_stable:
  "\<exists>probs xs ranked.
      score_nodes nodes nt = Inr probs \<and> map fst probs = map fst nodes
    \<and> with_cfg nodes probs = Inr xs \<and> map (\<lambda>x. (fst x, fst (snd x))) xs = probs
    \<and> ranked_nodes probs nodes = Inr ranked
    \<and> mset ranked = mset xs
    \<and> sorted_wrt (\<lambda>x y. fst (snd x) \<ge> fst (snd y)) ranked
    \<and> (\<forall>p. filter (\<lambda>x. fst (snd x) = p) ranked = filter (\<lambda>x. fst (snd x) = p) xs)"
proof -
  obtain probs where probs: "score_nodes nodes nt = Inr probs" "map fst probs = map fst nodes"
    using score_nodes_total by blast
  then have "set (map fst probs) \<subseteq> fst ` set nodes" by simp
  from with_cfg_total [OF this]
  obtain xs where xs: "with_cfg nodes probs = Inr xs" "map (\<lambda>x. (fst x, fst (snd x))) xs = probs"
    by blast
  let ?ranked = "sort_key (\<lambda>x. - fst (snd x)) xs"
  have r: "ranked_nodes probs nodes = Inr ?ranked"
    by (simp add: ranked_nodes_def xs(1) bind_err_def)
  have m: "mset ?ranked = mset xs" by simp
  have "sorted (map (\<lambda>x. - fst (snd x)) ?ranked)" by (rule sorted_sort_key)
  then have s: "sorted_wrt (\<lambda>x y. fst (snd x) \<ge> fst (snd y)) ?ranked"
    by (simp add: sorted_map sorted_wrt_iff_nth_less)
  have st: "filter (\<lambda>x. fst (snd x) = p) ?ranked = filter (\<lambda>x. fst (snd x) = p) xs" for p
    using sort_key_stable [of "\<lambda>x. - fst (snd x)" "- p" xs] by simp
  show ?thesis using probs xs r m s st by blast
qed

lemma py_round2_half: "py_round2 50 = 50"
  by (simp add: py_round2_def round_half_even_def Let_def)

lemma engine_sigmoid_neutral: "engine_sigmoid (1 / 2) 10 = Inr (1 / 2)"
  by (simp add: engine_sigmoid_def math_exp_def bind_err_def py_div_def
        EXP_OVERFLOW_def EXP_UNDERFLOW_def)

theorem ranked_nodes_descending_stable_witness:
  "score_nodes [(''Science'', \<lparr>description = ''inquiry'', trait_weights = Some [(''I'', 1)]\<rparr>),
                (''Technology'', \<lparr>description = ''systems'', trait_weights = Some [(''I'', 1)]\<rparr>)]
               [(''I'', 1 / 2)]
     = Inr [(''Science'', 50), (''Technology'', 50)]
   \<and> ranked_nodes [(''Science'', 50), (''Technology'', 50)]
        [(''Science'', \<lparr>description = ''inquiry'', trait_weights = Some [(''I'', 1)]\<rparr>),
         (''Technology'', \<lparr>description = ''systems'', trait_weights = Some [(''I'', 1)]\<rparr>)]
     = Inr [(''Science'', 50, \<lparr>description = ''inquiry'', trait_weights = Some [(''I'', 1)]\<rparr>),
            (''Technology'', 50, \<lparr>description = ''systems'', trait_weights = Some [(''I'', 1)]\<rparr>)]"
proof -
  let ?nodes = "[(''Science'', \<lparr>description = ''inquiry'', trait_weights = Some [(''I'', 1 :: real)]\<rparr>),
                (''Technology'', \<lparr>description = ''systems'', trait_weights = Some [(''I'', 1)]\<rparr>)]"
  let ?nt = "[(''I'', 1 / 2 :: real)]"
  have sm: "engine_softmax [(''Science'', 1 / 2), (''Technology'', 1 / 2)] 4
              = Inr [(''Science'', 50), (''Technology'', 50)]"
    using engine_softmax_uniform [of "[''Science'', ''Technology'']" "1 / 2" 4]
    by (simp add: py_round2_half)
  have sc: "score_nodes ?nodes ?nt = Inr [(''Science'', 50), (''Technology'', 50)]"
    by (simp add: score_nodes_def node_weights_def dot_product_def dict_get_def
          engine_sigmoid_neutral bind_err_def sm)
  from ranked_nodes_descending_stable [of ?nodes ?nt]
  obtain xs ranked where xs: "with_cfg ?nodes [(''Science'', 50), (''Technology'', 50)] = Inr xs"
    and r: "ranked_nodes [(''Science'', 50), (''Technology'', 50)] ?nodes = Inr ranked"
    and st: "filter (\<lambda>x. fst (snd x) = 50) ranked = filter (\<lambda>x. fst (snd x) = 50) xs"
    unfolding sc by auto
  have x: "xs = [(''Science'', 50, \<lparr>description = ''inquiry'', trait_weights = Some [(''I'', 1)]\<rparr>),
            (''Technology'', 50, \<lparr>description = ''systems'', trait_weights = Some [(''I'', 1)]\<rparr>)]"
    using xs by (simp add: bind_err_def)
  have "filter (\<lambda>x. fst (snd x) = 50) xs = xs"
    unfolding x by simp
  moreover have "length ranked = length xs"
    using r xs by (auto simp: ranked_nodes_def bind_err_def)
  ultimately have "ranked = xs"
    using st by (metis filter_True length_filter_less less_irrefl)
  then show ?thesis
    using sc r x by simp
qed

subsection \<open>Overflow in the two variants\<close>

text \<open>
  \<^verbatim>\<open>CJL/scoring.py\<close> has no handler for \<^verbatim>\<open>OverflowError\<close>; it keeps its exponents small
  instead: the traits are clamped to the interval from 0 to 1, the weights of
  \<^verbatim>\<open>CAREER_CLUSTERS\<close> are not negative, so a dot product is not negative and the exponent
  \<open>-12 * (x - 0.5)\<close> is at most 6; an activation is at most 1 and the exponent of the
  distribution builder at most 5.
\<close>

lemma scoring_sigmoid_no_overflow:
  assumes "- 12 * (x - 0.5) \<le> EXP_OVERFLOW"
  shows "\<exists>y. scoring_sigmoid x = Inr y \<and> 0 \<le> y \<and> y \<le> 1"
proof -
  have "math_exp (- 12 * (x - 0.5)) = Inr (exp_fin (- 12 * (x - 0.5)))"
    using assms by (rule math_exp_fin)
  moreover have "0 \<le> exp_fin (- 12 * (x - 0.5))" by (simp add: exp_fin_def)
  ultimately show ?thesis
    by (simp add: scoring_sigmoid_def bind_err_def py_div_def)
qed

lemma scoring_sigmoid_overflow:
  "EXP_OVERFLOW < - 12 * (x - 0.5) \<Longrightarrow> scoring_sigmoid x = Inl OverflowError"
  by (simp add: scoring_sigmoid_def math_exp_def bind_err_def)

lemma scoring_sigmoid_from_zero:
  assumes "0 \<le> x"
  shows "\<exists>y. scoring_sigmoid x = Inr y \<and> 0 \<le> y \<and> y \<le> 1"
proof (rule scoring_sigmoid_no_overflow)
  have "- 12 * (x - 0.5) \<le> 6" using assms by simp
  then show "- 12 * (x - 0.5) \<le> EXP_OVERFLOW" by (simp add: EXP_OVERFLOW_def)
qed

lemma dict_get_range:
  assumes "\<forall>(k, v) \<in> set d. P v" and "P dflt"
  shows "P (dict_get d t dflt)"
proof (cases "map_of d t")
  case None
  then show ?thesis using assms(2) by (simp add: dict_get_def)
next
  case (Some v)
  then have "(t, v) \<in> set d" by (rule map_of_SomeD)
  then show ?thesis using assms(1) Some by (auto simp: dict_get_def)
qed

lemma dot_product_nonneg:
  assumes "\<forall>(t, w) \<in> set weights. 0 \<le> w" and "\<forall>(k, v) \<in> set trait_vec. 0 \<le> v"
  shows "0 \<le> dot_product weights trait_vec"
  unfolding dot_product_def
proof (rule sum_list_nonneg)
  fix x assume "x \<in> set (map (\<lambda>t. dict_get weights t 0 * dict_get trait_vec t 0.5) (map fst weights))"
  then obtain t where x: "x = dict_get weights t 0 * dict_get trait_vec t 0.5" by auto
  have "0 \<le> dict_get weights t 0"
    using dict_get_range [of weights "\<lambda>w. 0 \<le> w" 0 t] assms(1) by simp
  moreover have "0 \<le> dict_get trait_vec t 0.5"
    using dict_get_range [of trait_vec "\<lambda>v. 0 \<le> v" "0.5" t] assms(2) by simp
  ultimately show "0 \<le> x" unfolding x by simp
qed

lemma CAREER_CLUSTERS_nonneg:
  "\<forall>(cluster, w) \<in> set CAREER_CLUSTERS. \<forall>(t, x) \<in> set w. 0 \<le> x"
  by (simp add: CAREER_CLUSTERS_def)

lemma dict_comp_returns_range:
  "\<forall>kv \<in> set d. \<exists>y. f kv = Inr y \<and> P y \<Longrightarrow>
   \<exists>out. dict_comp f d = Inr out \<and> map fst out = map fst d \<and> (\<forall>(k, y) \<in> set out. P y)"
  by (induction d) (auto simp: bind_err_def)

lemma scoring_softmax_unit_interval:
  assumes "\<forall>(k, v) \<in> set vals. 0 \<le> v \<and> v \<le> 1"
  shows "(\<forall>kv \<in> set vals. snd kv * 5 \<le> EXP_OVERFLOW)
       \<and> (\<exists>r. scoring_softmax vals = Inr r \<and> map fst r = map fst vals)"
proof -
  have ov: "\<forall>kv \<in> set vals. snd kv * 5 \<le> EXP_OVERFLOW"
    using assms activation_range(1) [of _ 5] by (auto simp: case_prod_beta)
  then show ?thesis
    by (simp add: scoring_softmax_no_overflow comp_def)
qed

lemma compute_cluster_scores_returns:
  assumes "\<forall>(k, v) \<in> set trait_vec. 0 \<le> v \<and> v \<le> 1"
  shows "\<exists>probs. compute_cluster_scores trait_vec = Inr probs
           \<and> map fst probs = map fst CAREER_CLUSTERS"
proof -
  have tv: "\<forall>(k, v) \<in> set trait_vec. 0 \<le> v" using assms by auto
  have "\<forall>kv \<in> set CAREER_CLUSTERS. \<exists>y.
          (case kv of (cluster, w) \<Rightarrow> scoring_sigmoid (dot_product w trait_vec)) = Inr y
          \<and> (0 \<le> y \<and> y \<le> 1)"
  proof
    fix kv assume kv: "kv \<in> set CAREER_CLUSTERS"
    then have "\<forall>(t, x) \<in> set (snd kv). 0 \<le> x"
      using CAREER_CLUSTERS_nonneg by (auto simp: case_prod_beta)
    then have "0 \<le> dot_product (snd kv) trait_vec"
      using tv by (rule dot_product_nonneg)
    then show "\<exists>y. (case kv of (cluster, w) \<Rightarrow> scoring_sigmoid (dot_product w trait_vec)) = Inr y
          \<and> (0 \<le> y \<and> y \<le> 1)"
      using scoring_sigmoid_from_zero by (simp add: case_prod_beta)
  qed
  from dict_comp_returns_range [of CAREER_CLUSTERS _ "\<lambda>y. 0 \<le> y \<and> y \<le> 1", OF this]
  obtain acts where acts: "dict_comp (\<lambda>(cluster, w). scoring_sigmoid (dot_product w trait_vec))
        CAREER_CLUSTERS = Inr acts"
    and k: "map fst acts = map fst CAREER_CLUSTERS"
    and rng: "\<forall>(k, y) \<in> set acts. 0 \<le> y \<and> y \<le> 1"
    by blast
  from scoring_softmax_unit_interval [OF rng] k show ?thesis
    by (auto simp: compute_cluster_scores_def acts bind_err_def)
qed

lemma math_exp_overflow_iff: "(math_exp x = Inl OverflowError) = (EXP_OVERFLOW < x)"
  by (simp add: math_exp_def)

text \<open>
  C2 (as amended). In \<^verbatim>\<open>CJL-PRO/engine.py\<close> the activation function returns, for every real
  \<open>x\<close> and every sharpness, a value between 0 and 1 and raises nothing; when the
  exponential overflows, the value is 0 if \<open>x < 0.5\<close> and 1 otherwise; \<open>score_nodes\<close> raises
  nothing, whatever the candidates and the trait vector. In \<^verbatim>\<open>CJL/scoring.py\<close> the
  activation function returns a value between 0 and 1 for every \<open>x\<close> at which the
  exponential does not overflow, so for every \<open>x\<close> from 0 to 1, and
  \<open>compute_cluster_scores\<close> raises nothing for a trait vector with values from 0 to 1, as
  \<^verbatim>\<open>score_assessment\<close> builds it.
\<close>

theorem activation_returns:
  "(\<exists>y. engine_sigmoid x sharpness = Inr y \<and> 0 \<le> y \<and> y \<le> 1)
   \<and> (math_exp (- sharpness * (x - 0.5)) = Inl OverflowError \<longrightarrow>
         engine_sigmoid x sharpness = Inr (if x < 0.5 then 0 else 1))
   \<and> (\<exists>probs. score_nodes nodes norm_traits = Inr probs)
   \<and> (math_exp (- 12 * (z - 0.5)) \<noteq> Inl OverflowError \<longrightarrow>
         (\<exists>y. scoring_sigmoid z = Inr y \<and> 0 \<le> y \<and> y \<le> 1))
   \<and> (0 \<le> z \<and> z \<le> 1 \<longrightarrow> (\<exists>y. scoring_sigmoid z = Inr y \<and> 0 \<le> y \<and> y \<le> 1))
   \<and> ((\<forall>(k, v) \<in> set trait_vec. 0 \<le> v \<and> v \<le> 1) \<longrightarrow>
         (\<exists>probs. compute_cluster_scores trait_vec = Inr probs))"
proof (intro conjI impI)
  show "\<exists>y. engine_sigmoid x sharpness = Inr y \<and> 0 \<le> y \<and> y \<le> 1"
    by (rule engine_sigmoid_total)
  show "engine_sigmoid x sharpness = Inr (if x < 0.5 then 0 else 1)"
    if "math_exp (- sharpness * (x - 0.5)) = Inl OverflowError"
    using that unfolding math_exp_overflow_iff by (rule engine_sigmoid_overflow)
  show "\<exists>probs. score_nodes nodes norm_traits = Inr probs"
    using score_nodes_total by blast
  show "\<exists>y. scoring_sigmoid z = Inr y \<and> 0 \<le> y \<and> y \<le> 1"
    if "math_exp (- 12 * (z - 0.5)) \<noteq> Inl OverflowError"
    using that unfolding math_exp_overflow_iff by (intro scoring_sigmoid_no_overflow) simp
  show "\<exists>y. scoring_sigmoid z = Inr y \<and> 0 \<le> y \<and> y \<le> 1" if "0 \<le> z \<and> z \<le> 1"
    using that by (intro scoring_sigmoid_from_zero) simp
  show "\<exists>probs. compute_cluster_scores trait_vec = Inr probs"
    if "\<forall>(k, v) \<in> set trait_vec. 0 \<le> v \<and> v \<le> 1"
    using compute_cluster_scores_returns [OF that] by blast
qed

lemma scoring_sigmoid_neutral: "scoring_sigmoid (1 / 2) = Inr (1 / 2)"
  by (simp add: scoring_sigmoid_def math_exp_def bind_err_def py_div_def
        EXP_OVERFLOW_def EXP_UNDERFLOW_def)

theorem activation_returns_witness:
  "engine_sigmoid (- 100) 10 = Inr 0
   \<and> scoring_sigmoid (1 / 2) = Inr (1 / 2)
   \<and> (\<exists>probs. compute_cluster_scores
         [(''apt'', 1), (''O'', 1 / 2), (''C'', 1 / 2), (''E'', 1 / 2), (''A'', 1 / 2),
          (''stab'', 1 / 2), (''R'', 0), (''I'', 3 / 4), (''Art'', 1 / 2)] = Inr probs)"
proof -
  let ?tv = "[(''apt'', 1 :: real), (''O'', 1 / 2), (''C'', 1 / 2), (''E'', 1 / 2), (''A'', 1 / 2),
          (''stab'', 1 / 2), (''R'', 0), (''I'', 3 / 4), (''Art'', 1 / 2)]"
  note t = activation_returns [of "- 100" 10 "[]" "[]" "1 / 2" ?tv]
  have ov: "math_exp (- 10 * (- 100 - 0.5)) = Inl OverflowError"
    by (simp add: math_exp_def EXP_OVERFLOW_def)
  have "engine_sigmoid (- 100) 10 = Inr (if (- 100 :: real) < 0.5 then 0 else 1)"
    using t ov by blast
  then have e: "engine_sigmoid (- 100) 10 = Inr 0" by simp
  have "\<exists>y. scoring_sigmoid (1 / 2) = Inr y \<and> 0 \<le> y \<and> y \<le> 1"
    using t by simp
  then have s: "scoring_sigmoid (1 / 2) = Inr (1 / 2)"
    by (simp add: scoring_sigmoid_neutral)
  have "\<forall>(k, v) \<in> set ?tv. 0 \<le> v \<and> v \<le> 1" by simp
  then have c: "\<exists>probs. compute_cluster_scores ?tv = Inr probs"
    using t by blast
  show ?thesis using e s c by blast
qed

text \<open>
  C2 as stated covers every real \<open>x\<close> in both variants. At \<open>x = -100\<close> the exponent of
  \<^verbatim>\<open>CJL/scoring.py\<close> is \<open>12 * 100.5 = 1206\<close>, \<^verbatim>\<open>math.exp\<close> raises \<^verbatim>\<open>OverflowError\<close> and
  \<^verbatim>\<open>_sigmoid\<close>, which has no handler, lets it through; \<^verbatim>\<open>CJL-PRO/engine.py\<close> returns 0 there.
\<close>

theorem scoring_sigmoid_overflow_raises:
  "scoring_sigmoid (- 100) = Inl OverflowError \<and> engine_sigmoid (- 100) 10 = Inr 0"
  by (simp add: scoring_sigmoid_def engine_sigmoid_def math_exp_def bind_err_def EXP_OVERFLOW_def)




end
